theory Spec2Isabelle
  imports Complex_Main
begin

section \<open>NumPy floating-point values, without rounding\<close>

text \<open>
  The clusterer of \<^verbatim>\<open>labs/w1/algorithms/fcm.py\<close> computes on NumPy \<^verbatim>\<open>float64\<close> arrays.
  A value is modelled as a real number or one of the three special values of IEEE
  arithmetic. Rounding, overflow and the sign of zero are not modelled: a finite result
  is the exact real result. What is modelled is what NumPy does where Python would
  raise: a division by zero or an undefined operation returns an infinity or NaN and
  the computation goes on.
\<close>

datatype npfloat = Num real | PosInf | NegInf | NaN

fun is_fin :: "npfloat \<Rightarrow> bool" where
  "is_fin (Num x) = True"
| "is_fin _ = False"

fun the_num :: "npfloat \<Rightarrow> real" where
  "the_num (Num x) = x"
| "the_num _ = 0"

fun fneg :: "npfloat \<Rightarrow> npfloat" where
  "fneg (Num x) = Num (- x)"
| "fneg PosInf = NegInf"
| "fneg NegInf = PosInf"
| "fneg NaN = NaN"

fun fadd :: "npfloat \<Rightarrow> npfloat \<Rightarrow> npfloat" where
  "fadd (Num x) (Num y) = Num (x + y)"
| "fadd NaN _ = NaN"
| "fadd _ NaN = NaN"
| "fadd PosInf NegInf = NaN"
| "fadd NegInf PosInf = NaN"
| "fadd PosInf _ = PosInf"
| "fadd _ PosInf = PosInf"
| "fadd NegInf _ = NegInf"
| "fadd _ NegInf = NegInf"

definition fsub :: "npfloat \<Rightarrow> npfloat \<Rightarrow> npfloat" where
  "fsub a b = fadd a (fneg b)"

text \<open>The infinity with the sign of a nonzero real, times the sign of the infinity.\<close>

definition inf_of_sign :: "real \<Rightarrow> npfloat" where
  "inf_of_sign x = (if x = 0 then NaN else if 0 < x then PosInf else NegInf)"

fun fmul :: "npfloat \<Rightarrow> npfloat \<Rightarrow> npfloat" where
  "fmul (Num x) (Num y) = Num (x * y)"
| "fmul NaN _ = NaN"
| "fmul _ NaN = NaN"
| "fmul (Num x) PosInf = inf_of_sign x"
| "fmul (Num x) NegInf = inf_of_sign (- x)"
| "fmul PosInf (Num y) = inf_of_sign y"
| "fmul NegInf (Num y) = inf_of_sign (- y)"
| "fmul PosInf PosInf = PosInf"
| "fmul NegInf NegInf = PosInf"
| "fmul PosInf NegInf = NegInf"
| "fmul NegInf PosInf = NegInf"

text \<open>
  Division of NumPy floats never raises: \<^verbatim>\<open>0.0 / 0.0\<close> is NaN and \<^verbatim>\<open>x / 0.0\<close> is an
  infinity with the sign of \<^verbatim>\<open>x\<close> (a zero divisor is taken as \<^verbatim>\<open>+0.0\<close>).
\<close>

fun fdiv :: "npfloat \<Rightarrow> npfloat \<Rightarrow> npfloat" where
  "fdiv (Num x) (Num y) = (if y = 0 then inf_of_sign x else Num (x / y))"
| "fdiv NaN _ = NaN"
| "fdiv _ NaN = NaN"
| "fdiv (Num x) _ = Num 0"
| "fdiv PosInf (Num y) = (if 0 \<le> y then PosInf else NegInf)"
| "fdiv NegInf (Num y) = (if 0 \<le> y then NegInf else PosInf)"
| "fdiv _ _ = NaN"

fun fabs :: "npfloat \<Rightarrow> npfloat" where
  "fabs (Num x) = Num \<bar>x\<bar>"
| "fabs NaN = NaN"
| "fabs _ = PosInf"

fun fsqrt :: "npfloat \<Rightarrow> npfloat" where
  "fsqrt (Num x) = (if 0 \<le> x then Num (sqrt x) else NaN)"
| "fsqrt PosInf = PosInf"
| "fsqrt _ = NaN"

text \<open>\<^verbatim>\<open>a < b\<close>: every comparison with NaN is false.\<close>

fun fless :: "npfloat \<Rightarrow> npfloat \<Rightarrow> bool" where
  "fless (Num x) (Num y) = (x < y)"
| "fless NaN _ = False"
| "fless _ NaN = False"
| "fless _ NegInf = False"
| "fless PosInf _ = False"
| "fless _ _ = True"

text \<open>\<^verbatim>\<open>a <= b\<close>, used to state that a loss did not increase.\<close>

fun fle :: "npfloat \<Rightarrow> npfloat \<Rightarrow> bool" where
  "fle (Num x) (Num y) = (x \<le> y)"
| "fle NaN _ = False"
| "fle _ NaN = False"
| "fle NegInf _ = True"
| "fle _ PosInf = True"
| "fle _ _ = False"

text \<open>The maximum of two values as \<^verbatim>\<open>np.max\<close> takes it: NaN wins.\<close>

fun fmax :: "npfloat \<Rightarrow> npfloat \<Rightarrow> npfloat" where
  "fmax NaN _ = NaN"
| "fmax _ NaN = NaN"
| "fmax a b = (if fless a b then b else a)"

text \<open>
  \<^verbatim>\<open>x ** n\<close> for a float \<^verbatim>\<open>x\<close> and a Python \<^verbatim>\<open>int\<close> \<^verbatim>\<open>n\<close>: \<^verbatim>\<open>self.u ** self.m\<close>,
  \<^verbatim>\<open>u_ki ** -1\<close> and \<^verbatim>\<open>norm ** 2\<close>. Anything to the power 0 is 1, NaN included;
  zero to a negative power is infinite.
\<close>

fun fpowi :: "npfloat \<Rightarrow> int \<Rightarrow> npfloat" where
  "fpowi (Num x) n = (if x = 0 \<and> n < 0 then PosInf else Num (x powi n))"
| "fpowi PosInf n = (if 0 < n then PosInf else if n = 0 then Num 1 else Num 0)"
| "fpowi NegInf n =
     (if 0 < n then (if even n then PosInf else NegInf)
      else if n = 0 then Num 1 else Num 0)"
| "fpowi NaN n = (if n = 0 then Num 1 else NaN)"

text \<open>
  \<^verbatim>\<open>x ** y\<close> for a float \<^verbatim>\<open>x\<close> and a finite Python \<^verbatim>\<open>float\<close> \<^verbatim>\<open>y\<close>, the C function
  \<^verbatim>\<open>pow\<close>: the membership update raises a ratio of norms to \<^verbatim>\<open>2 / (m - 1)\<close>.
\<close>

fun fpowr :: "npfloat \<Rightarrow> real \<Rightarrow> npfloat" where
  "fpowr (Num x) y =
     (if y = 0 then Num 1
      else if 0 < x then Num (x powr y)
      else if x = 0 then (if 0 < y then Num 0 else PosInf)
      else if y \<in> \<int> then Num (x powi \<lfloor>y\<rfloor>) else NaN)"
| "fpowr PosInf y = (if y = 0 then Num 1 else if 0 < y then PosInf else Num 0)"
| "fpowr NegInf y =
     (if y = 0 then Num 1
      else if y < 0 then Num 0
      else if y \<in> \<int> \<and> odd \<lfloor>y\<rfloor> then NegInf else PosInf)"
| "fpowr NaN y = (if y = 0 then Num 1 else NaN)"

section \<open>Vectors and matrices\<close>

text \<open>
  A one-dimensional array is a list, a two-dimensional array the list of its rows.
  NumPy arrays are rectangular; \<open>is_matrix r c A\<close> says that \<open>A\<close> has shape \<open>(r, c)\<close>.
  An array without rows has no width in this representation.
\<close>

type_synonym vec = "npfloat list"
type_synonym matrix = "npfloat list list"

definition is_matrix :: "nat \<Rightarrow> nat \<Rightarrow> matrix \<Rightarrow> bool" where
  "is_matrix r c A = (length A = r \<and> list_all (\<lambda>row. length row = c) A)"

definition all_num :: "matrix \<Rightarrow> bool" where
  "all_num A = list_all (list_all is_fin) A"

definition ncols :: "matrix \<Rightarrow> nat" where
  "ncols A = (case A of [] \<Rightarrow> 0 | row # _ \<Rightarrow> length row)"

definition col :: "matrix \<Rightarrow> nat \<Rightarrow> vec" where
  "col A j = map (\<lambda>row. row ! j) A"

text \<open>\<^verbatim>\<open>a.sum()\<close> of a one-dimensional array; the sum of no element is \<^verbatim>\<open>0.0\<close>.\<close>

fun fsum :: "vec \<Rightarrow> npfloat" where
  "fsum [] = Num 0"
| "fsum (x # xs) = fadd x (fsum xs)"

text \<open>\<^verbatim>\<open>A.sum(axis=0)\<close>: the sum of every column.\<close>

definition sum_axis0 :: "matrix \<Rightarrow> vec" where
  "sum_axis0 A = map (\<lambda>j. fsum (col A j)) [0..<ncols A]"

text \<open>\<^verbatim>\<open>A.sum(axis=1, keepdims=True)\<close>: the sum of every row, as a column.\<close>

definition sum_axis1 :: "matrix \<Rightarrow> vec" where
  "sum_axis1 A = map fsum A"

text \<open>\<^verbatim>\<open>a - b\<close> of two one-dimensional arrays of the same length.\<close>

definition vsub :: "vec \<Rightarrow> vec \<Rightarrow> vec" where
  "vsub a b = map2 fsub a b"

definition msub :: "matrix \<Rightarrow> matrix \<Rightarrow> matrix" where
  "msub A B = map2 vsub A B"

text \<open>\<^verbatim>\<open>np.linalg.norm(v)\<close> of a one-dimensional array: the Euclidean norm.\<close>

definition linalg_norm :: "vec \<Rightarrow> npfloat" where
  "linalg_norm v = fsqrt (fsum (map (\<lambda>z. fmul z z) v))"

section \<open>Errors\<close>

text \<open>
  The source has no \<^verbatim>\<open>raise\<close> of its own. The exceptions it can run into on an instance
  of the right shapes are Python's \<^verbatim>\<open>ZeroDivisionError\<close> (a division of Python numbers,
  \<^verbatim>\<open>2 / (self.m - 1)\<close>) and NumPy's \<^verbatim>\<open>ValueError\<close> for the maximum of an empty array.
\<close>

datatype error = ZeroDivisionError | ValueError

text \<open>\<^verbatim>\<open>a.max()\<close>: raises on an empty array.\<close>

fun np_max :: "vec \<Rightarrow> error + npfloat" where
  "np_max [] = Inl ValueError"
| "np_max (x # xs) = Inr (foldl fmax x xs)"

text \<open>
  \<^verbatim>\<open>np.linalg.norm(A, ord=1)\<close> of a two-dimensional array is NumPy's matrix 1-norm,
  \<^verbatim>\<open>max(sum(abs(A), axis=0))\<close>: the largest column sum of absolute values. An array
  without rows, of shape \<open>(0, D)\<close>, has \<open>D\<close> empty columns, each of sum \<^verbatim>\<open>0.0\<close>, and
  the norm is \<^verbatim>\<open>0.0\<close>; the data have at least one feature, so \<open>D\<close> is not 0 there. An
  array with rows and no column has no column sum and the maximum raises.
\<close>

definition linalg_norm_ord1 :: "matrix \<Rightarrow> error + npfloat" where
  "linalg_norm_ord1 A =
     (if A = [] then Inr (Num 0) else np_max (sum_axis0 (map (map fabs) A)))"

text \<open>
  The L1 norm of a matrix as the sum of the absolute values of all its entries, to
  compare \<^verbatim>\<open>np.linalg.norm(A, ord=1)\<close> with.
\<close>

definition entrywise_l1_norm :: "matrix \<Rightarrow> npfloat" where
  "entrywise_l1_norm A = fsum (map fabs (concat A))"

section \<open>The clusterer\<close>

text \<open>
  The attributes of a \<^verbatim>\<open>FuzzyCMeans\<close> instance that its methods read or write. \<open>K\<close>,
  \<open>X\<close>, \<open>it\<close>, \<open>max_it\<close> and \<open>centroids\<close> are set by the base class \<^verbatim>\<open>KMeans\<close>; \<open>m\<close>,
  \<open>epsilon\<close> and \<open>u\<close> by \<^verbatim>\<open>FuzzyCMeans\<close>. The parameter \<^verbatim>\<open>m\<close> is annotated \<^verbatim>\<open>int\<close>.
  On a fitted instance \<open>X\<close> has shape \<open>(N, D)\<close>, \<open>u\<close> has shape \<open>(K, N)\<close> and \<open>centroids\<close>
  has shape \<open>(K, D)\<close>: this is \<open>shapes N D\<close>. The definitions below follow the source on
  such instances. On other shapes NumPy broadcasts or raises \<^verbatim>\<open>IndexError\<close> or
  \<^verbatim>\<open>ValueError\<close>, where the list operations of the model truncate or leave a list
  unchanged; every property about entries below assumes \<open>shapes\<close>.
\<close>

record fcm_state =
  K :: nat
  X :: matrix
  m :: int
  epsilon :: real
  it :: int
  max_it :: int
  u :: matrix
  centroids :: matrix

definition shapes :: "nat \<Rightarrow> nat \<Rightarrow> fcm_state \<Rightarrow> bool" where
  "shapes n d st =
     (is_matrix n d (X st) \<and> is_matrix (K st) n (u st) \<and> is_matrix (K st) d (centroids st))"

text \<open>Running a loop body over a list of indices; the first exception ends the loop.\<close>

fun foldM :: "('a \<Rightarrow> 's \<Rightarrow> error + 's) \<Rightarrow> 'a list \<Rightarrow> 's \<Rightarrow> error + 's" where
  "foldM f [] s = Inr s"
| "foldM f (x # xs) s = (case f x s of Inl e \<Rightarrow> Inl e | Inr s' \<Rightarrow> foldM f xs s')"

subsection \<open>\<^verbatim>\<open>__init__\<close>\<close>

text \<open>
  \<^verbatim>\<open>
  def __init__(self, m: int, epsilon=0.01, **kwargs):
      self.m = m
      self.epsilon = epsilon
      super().__init__(**kwargs)
  \<close>
  The constructor of the base class \<^verbatim>\<open>KMeans\<close> is not part of the sources: it is the
  parameter \<open>kmeans_init\<close>, which receives the instance with \<open>m\<close> and \<open>epsilon\<close> set
  (the keyword arguments are part of it) and returns the instance or raises.
\<close>

definition fcm_init ::
  "(fcm_state \<Rightarrow> error + fcm_state) \<Rightarrow> fcm_state \<Rightarrow> int \<Rightarrow> real \<Rightarrow> error + fcm_state" where
  "fcm_init kmeans_init self m' epsilon' = kmeans_init (self\<lparr>m := m', epsilon := epsilon'\<rparr>)"

subsection \<open>\<^verbatim>\<open>_init_u\<close>\<close>

text \<open>\<^verbatim>\<open>A / A.sum(axis=0)[None, :]\<close>: every entry divided by the sum of its column.\<close>

definition normalize_columns :: "matrix \<Rightarrow> matrix" where
  "normalize_columns A = map (\<lambda>row. map2 fdiv row (sum_axis0 A)) A"

text \<open>
  \<^verbatim>\<open>
  def _init_u(self):
      u = np.random.random(size=(self.K, self.X.shape[0]))
      self.u = u / u.sum(axis=0)[None, :]
  \<close>
  The random sample is the parameter \<open>r\<close>: \<^verbatim>\<open>np.random.random\<close> returns an array of the
  requested shape with entries in the half-open interval from 0 to 1.
\<close>

definition random_sample :: "nat \<Rightarrow> nat \<Rightarrow> matrix \<Rightarrow> bool" where
  "random_sample r c A =
     (is_matrix r c A \<and> list_all (list_all (\<lambda>a. is_fin a \<and> 0 \<le> the_num a \<and> the_num a < 1)) A)"

definition init_u :: "fcm_state \<Rightarrow> matrix \<Rightarrow> fcm_state" where
  "init_u st r = st\<lparr>u := normalize_columns r\<rparr>"

subsection \<open>\<^verbatim>\<open>_update_v\<close>\<close>

definition mpowi :: "matrix \<Rightarrow> int \<Rightarrow> matrix" where
  "mpowi A n = map (map (\<lambda>a. fpowi a n)) A"

definition dot :: "vec \<Rightarrow> vec \<Rightarrow> npfloat" where
  "dot a b = fsum (map2 fmul a b)"

text \<open>\<^verbatim>\<open>A @ B\<close> for \<open>A\<close> of shape \<open>(r, n)\<close> and \<open>B\<close> of shape \<open>(n, c)\<close>.\<close>

definition matmul :: "matrix \<Rightarrow> matrix \<Rightarrow> matrix" where
  "matmul A B = map (\<lambda>row. map (\<lambda>j. dot row (col B j)) [0..<ncols B]) A"

text \<open>\<^verbatim>\<open>A / d\<close> for \<open>A\<close> of shape \<open>(r, c)\<close> and a column \<open>d\<close> of shape \<open>(r, 1)\<close>.\<close>

definition div_rows :: "matrix \<Rightarrow> vec \<Rightarrow> matrix" where
  "div_rows A d = map2 (\<lambda>row dk. map (\<lambda>a. fdiv a dk) row) A d"

text \<open>
  \<^verbatim>\<open>
  def _update_v(self):
      u_pow_m = self.u ** self.m
      n_term = u_pow_m @ self.X
      d_term = u_pow_m.sum(axis=1, keepdims=True)
      self.centroids = n_term / d_term
  \<close>
\<close>

definition update_v :: "fcm_state \<Rightarrow> fcm_state" where
  "update_v st =
     (let u_pow_m = mpowi (u st) (m st);
          n_term = matmul u_pow_m (X st);
          d_term = sum_axis1 u_pow_m
      in st\<lparr>centroids := div_rows n_term d_term\<rparr>)"

subsection \<open>\<^verbatim>\<open>_loss\<close>\<close>

text \<open>
  \<^verbatim>\<open>
  def _loss(self):
      res = 0
      for i in range(self.X.shape[0]):
          for k in range(self.K):
              res += (self.u[k, i] ** self.m) * np.linalg.norm(self.X[i] - self.centroids[k]) ** 2
      return res
  \<close>
  The method returns the value and the instance, which it only reads.
\<close>

definition loss_term :: "fcm_state \<Rightarrow> nat \<Rightarrow> nat \<Rightarrow> npfloat" where
  "loss_term st i k =
     fmul (fpowi (u st ! k ! i) (m st))
          (fpowi (linalg_norm (vsub (X st ! i) (centroids st ! k))) 2)"

definition loss :: "fcm_state \<Rightarrow> npfloat \<times> fcm_state" where
  "loss st =
     (foldl (\<lambda>res i. foldl (\<lambda>res k. fadd res (loss_term st i k)) res [0..<K st])
        (Num 0) [0..<length (X st)],
      st)"

subsection \<open>\<^verbatim>\<open>_update_u\<close>\<close>

text \<open>
  \<^verbatim>\<open>
  def _update_u(self):
      for k in range(self.K):
          for i in range(self.X.shape[0]):
              u_ki = 0
              num = np.linalg.norm(self.X[i, :] - self.centroids[k])
              for j in range(self.u.shape[0]):
                  den = np.linalg.norm(self.X[i, :] - self.centroids[j])
                  u_ki += (num / den) ** (2 / (self.m - 1))
              u_ki **= -1
              self.u[k, i] = u_ki
      self.u = self.u / self.u.sum(axis=0)[None, :]
  \<close>
  \<^verbatim>\<open>2 / (self.m - 1)\<close> divides two Python integers and raises when \<open>m\<close> is 1; it is
  evaluated anew in every pass of the innermost loop. \<^verbatim>\<open>num / den\<close> divides two NumPy
  floats and never raises. \<open>u_ki\<close> is the Python integer 0 until a float is added to
  it, and \<^verbatim>\<open>0 ** -1\<close> on Python integers raises too.
\<close>

definition exponent :: "int \<Rightarrow> error + real" where
  "exponent m' = (if m' - 1 = 0 then Inl ZeroDivisionError else Inr (2 / real_of_int (m' - 1)))"

definition distance :: "fcm_state \<Rightarrow> nat \<Rightarrow> nat \<Rightarrow> npfloat" where
  "distance st i k = linalg_norm (vsub (X st ! i) (centroids st ! k))"

definition u_ki_step :: "fcm_state \<Rightarrow> nat \<Rightarrow> npfloat \<Rightarrow> nat \<Rightarrow> npfloat \<Rightarrow> error + npfloat" where
  "u_ki_step st i num j u_ki =
     (let den = distance st i j in
      case exponent (m st) of
        Inl e \<Rightarrow> Inl e
      | Inr y \<Rightarrow> Inr (fadd u_ki (fpowr (fdiv num den) y)))"

definition membership :: "fcm_state \<Rightarrow> nat \<Rightarrow> nat \<Rightarrow> error + npfloat" where
  "membership st k i =
     (let num = distance st i k in
      case foldM (u_ki_step st i num) [0..<length (u st)] (Num 0) of
        Inl e \<Rightarrow> Inl e
      | Inr u_ki \<Rightarrow> if u st = [] then Inl ZeroDivisionError else Inr (fpowi u_ki (- 1)))"

definition assign_u :: "fcm_state \<Rightarrow> nat \<Rightarrow> nat \<Rightarrow> matrix \<Rightarrow> error + matrix" where
  "assign_u st k i U =
     (case membership st k i of
        Inl e \<Rightarrow> Inl e
      | Inr u_ki \<Rightarrow> Inr (U[k := (U ! k)[i := u_ki]]))"

definition update_u :: "fcm_state \<Rightarrow> error + fcm_state" where
  "update_u st =
     (case foldM (\<lambda>k. foldM (assign_u st k) [0..<length (X st)]) [0..<K st] (u st) of
        Inl e \<Rightarrow> Inl e
      | Inr U \<Rightarrow> Inr (st\<lparr>u := normalize_columns U\<rparr>))"

subsection \<open>\<^verbatim>\<open>_compute_centroids\<close>\<close>

text \<open>
  \<^verbatim>\<open>
  def _compute_centroids(self, *args):
      self._update_v()
      logging.debug(f'... Loss after updating V: {self._loss():.6f}')
      self._update_u()
      logging.debug(f'... Loss after updating U: {self._loss():.6f}')
  \<close>
  The two losses are computed for the log only.
\<close>

definition compute_centroids :: "fcm_state \<Rightarrow> error + fcm_state" where
  "compute_centroids st =
     (let st1 = update_v st;
          st2 = snd (loss st1)
      in case update_u st2 of
           Inl e \<Rightarrow> Inl e
         | Inr st3 \<Rightarrow> Inr (snd (loss st3)))"

subsection \<open>\<^verbatim>\<open>_check_convergence\<close>\<close>

text \<open>
  \<^verbatim>\<open>
  def _check_convergence(self, previous_centroids):
      if self.it >= self.max_it:
          return True
      if previous_centroids is not None:
          return np.linalg.norm(self.centroids - previous_centroids, ord=1) < self.epsilon
      return False
  \<close>
  The previous centroids are a snapshot of \<open>centroids\<close>, of the same shape.
\<close>

definition check_convergence :: "fcm_state \<Rightarrow> matrix option \<Rightarrow> error + bool" where
  "check_convergence st previous_centroids =
     (if max_it st \<le> it st then Inr True
      else case previous_centroids of
        Some p \<Rightarrow>
          (case linalg_norm_ord1 (msub (centroids st) p) of
             Inl e \<Rightarrow> Inl e
           | Inr n \<Rightarrow> Inr (fless n (Num (epsilon st))))
      | None \<Rightarrow> Inr False)"

subsection \<open>\<^verbatim>\<open>predict\<close>\<close>

text \<open>
  \<^verbatim>\<open>
  def predict(self, X: np.ndarray):
      # TODO: What if predict with different data
      return self.u, self.centroids
  \<close>
  The method returns a pair and the instance, which it does not touch.
\<close>

definition predict :: "fcm_state \<Rightarrow> matrix \<Rightarrow> (matrix \<times> matrix) \<times> fcm_state" where
  "predict st X' = ((u st, centroids st), st)"

section \<open>The quantities of the specification\<close>

text \<open>
  The entries of the data, the memberships and the centroids as real numbers, the weight
  \<open>U[k,i]^m\<close> of point \<open>i\<close> in cluster \<open>k\<close>, and the squared Euclidean distance of
  point \<open>i\<close> to centroid \<open>k\<close>.
\<close>

definition xr :: "fcm_state \<Rightarrow> nat \<Rightarrow> nat \<Rightarrow> real" where
  "xr st i j = the_num (X st ! i ! j)"

definition ur :: "fcm_state \<Rightarrow> nat \<Rightarrow> nat \<Rightarrow> real" where
  "ur st k i = the_num (u st ! k ! i)"

definition vr :: "fcm_state \<Rightarrow> nat \<Rightarrow> nat \<Rightarrow> real" where
  "vr st k j = the_num (centroids st ! k ! j)"

definition weight :: "fcm_state \<Rightarrow> nat \<Rightarrow> nat \<Rightarrow> real" where
  "weight st k i = ur st k i powi m st"

definition sqdist :: "fcm_state \<Rightarrow> nat \<Rightarrow> nat \<Rightarrow> real" where
  "sqdist st i k = (\<Sum>j<length (X st ! i). (xr st i j - vr st k j)\<^sup>2)"

text \<open>
  The value that \<^verbatim>\<open>_update_u\<close> assigns to \<^verbatim>\<open>self.u[k, i]\<close> when no exception is raised,
  before the columns are normalised.
\<close>

definition u_ki_value :: "fcm_state \<Rightarrow> nat \<Rightarrow> nat \<Rightarrow> npfloat" where
  "u_ki_value st k i =
     fpowi (foldl (\<lambda>s j. fadd s (fpowr (fdiv (distance st i k) (distance st i j))
                                      (2 / real_of_int (m st - 1))))
              (Num 0) [0..<length (u st)]) (- 1)"

text \<open>
  The membership of the specification,
  \<open>1 / \<Sum>j. (d(x_i, v_k) / d(x_i, v_j)) ^ (2 / (m - 1))\<close>, over the real numbers.
\<close>

definition ratio_sum :: "fcm_state \<Rightarrow> nat \<Rightarrow> nat \<Rightarrow> real" where
  "ratio_sum st k i =
     (\<Sum>j<K st. (sqrt (sqdist st i k) / sqrt (sqdist st i j)) powr (2 / real_of_int (m st - 1)))"

definition mu :: "fcm_state \<Rightarrow> nat \<Rightarrow> nat \<Rightarrow> real" where
  "mu st k i = 1 / ratio_sum st k i"

text \<open>The objective \<open>\<Sum>i. \<Sum>k. U[k,i]^m * \<parallel>x_i - v_k\<parallel>^2\<close> over \<open>n\<close> points, as a real number.\<close>

definition loss_r :: "nat \<Rightarrow> fcm_state \<Rightarrow> real" where
  "loss_r n st = (\<Sum>i<n. \<Sum>k<K st. weight st k i * sqdist st i k)"

section \<open>Example instances\<close>

text \<open>
  Two points on a line, at 0 and 2, and two clusters with equal memberships: both
  centroids are at 1, at distance 1 of both points.
\<close>

definition ex_fit :: fcm_state where
  "ex_fit = \<lparr>K = 2, X = [[Num 0], [Num 2]], m = 2, epsilon = 1 / 100, it = 3, max_it = 10,
     u = [[Num (1 / 2), Num (1 / 2)], [Num (1 / 2), Num (1 / 2)]],
     centroids = [[Num 1], [Num 1]]\<rparr>"

text \<open>
  The same points with a random sample whose first row is zero: after \<^verbatim>\<open>_init_u\<close> the
  first cluster has membership 0 for both points and the second has membership 1.
\<close>

definition ex_sample :: matrix where
  "ex_sample = [[Num 0, Num 0], [Num (1 / 2), Num (1 / 2)]]"

definition ex_new :: fcm_state where
  "ex_new = \<lparr>K = 2, X = [[Num 0], [Num 2]], m = 2, epsilon = 1 / 100, it = 0, max_it = 10,
     u = [], centroids = [[Num 0], [Num 2]]\<rparr>"

text \<open>
  A random sample that makes the memberships crisp: after \<^verbatim>\<open>_init_u\<close> and \<^verbatim>\<open>_update_v\<close>
  the two centroids are the two points.
\<close>

definition ex_crisp_sample :: matrix where
  "ex_crisp_sample = [[Num (1 / 2), Num 0], [Num 0, Num (1 / 2)]]"

text \<open>A random sample whose first column is zero.\<close>

definition ex_zero_column_sample :: matrix where
  "ex_zero_column_sample = [[Num 0, Num (1 / 2)], [Num 0, Num (1 / 2)]]"

text \<open>
  Two clusters in the plane whose centroids are at \<open>(1, -2)\<close> and \<open>(3, 4)\<close>, with the
  tolerance 6.5, and a snapshot of centroids at the origin.
\<close>

definition ex_plane :: fcm_state where
  "ex_plane = \<lparr>K = 2, X = [[Num 0, Num 0], [Num 4, Num 2]], m = 2, epsilon = 13 / 2, it = 1,
     max_it = 10, u = [[Num (1 / 2), Num (1 / 2)], [Num (1 / 2), Num (1 / 2)]],
     centroids = [[Num 1, Num (- 2)], [Num 3, Num 4]]\<rparr>"

definition ex_origin :: matrix where
  "ex_origin = [[Num 0, Num 0], [Num 0, Num 0]]"

section \<open>Properties\<close>

subsection \<open>The result of \<^verbatim>\<open>predict\<close>\<close>

text \<open>
  C10. Whatever matrix \<open>X'\<close> is passed, also one that is not the training data,
  \<^verbatim>\<open>predict\<close> returns the membership matrix and the centroids that the instance
  holds, so two calls with different arguments return the same, and the instance is
  left as it was.
\<close>

theorem predict_ignores_argument:
  "fst (predict st X') = (u st, centroids st)
   \<and> snd (predict st X') = st
   \<and> predict st X' = predict st X''"
  by (simp add: predict_def)

subsection \<open>The centroid update\<close>

lemma fsum_Num: "fsum (map (\<lambda>i. Num (f i)) xs) = Num (sum_list (map f xs))"
  by (induction xs) simp_all

lemma sum_list_upt: "sum_list (map f [0..<n]) = (\<Sum>i<n. f i)"
  by (simp add: interv_sum_list_conv_sum_set_nat atLeast0LessThan)

lemma map2_nth:
  "length xs = n \<Longrightarrow> length ys = n \<Longrightarrow> map2 f xs ys = map (\<lambda>i. f (xs ! i) (ys ! i)) [0..<n]"
  by (rule nth_equalityI) auto

lemma is_matrix_length: "is_matrix r c A \<Longrightarrow> length A = r"
  by (simp add: is_matrix_def)

lemma is_matrix_nth: "is_matrix r c A \<Longrightarrow> k < r \<Longrightarrow> length (A ! k) = c"
  by (simp add: is_matrix_def list_all_length)

lemma is_matrix_ncols: "is_matrix r c A \<Longrightarrow> 0 < r \<Longrightarrow> ncols A = c"
  by (cases A) (simp_all add: is_matrix_def ncols_def)

lemma all_num_nth:
  "all_num A \<Longrightarrow> k < length A \<Longrightarrow> i < length (A ! k) \<Longrightarrow> A ! k ! i = Num (the_num (A ! k ! i))"
proof -
  assume "all_num A" "k < length A" "i < length (A ! k)"
  then have "is_fin (A ! k ! i)" by (simp add: all_num_def list_all_length)
  then show ?thesis by (cases "A ! k ! i") simp_all
qed

lemma dot_nth:
  "length a = n \<Longrightarrow> length b = n \<Longrightarrow> dot a b = fsum (map (\<lambda>i. fmul (a ! i) (b ! i)) [0..<n])"
  by (simp add: dot_def map2_nth)

lemma update_v_entry:
  assumes "shapes n d st" "0 < n" "k < K st" "j < d"
  shows "centroids (update_v st) ! k ! j =
         fdiv (fsum (map (\<lambda>i. fmul (fpowi (u st ! k ! i) (m st)) (X st ! i ! j)) [0..<n]))
              (fsum (map (\<lambda>i. fpowi (u st ! k ! i) (m st)) [0..<n]))"
proof -
  have lu: "length (u st) = K st" and luk: "length (u st ! k) = n"
    and lx: "length (X st) = n" and nc: "ncols (X st) = d"
    using assms by (auto simp: shapes_def is_matrix_length is_matrix_nth is_matrix_ncols)
  have row: "map (\<lambda>a. fpowi a (m st)) (u st ! k) = map (\<lambda>i. fpowi (u st ! k ! i) (m st)) [0..<n]"
    using luk by (intro nth_equalityI) auto
  have "fsum (map (\<lambda>a. fpowi a (m st)) (u st ! k)) = fsum (map (\<lambda>i. fpowi (u st ! k ! i) (m st)) [0..<n])"
    by (simp only: row)
  moreover have "dot (map (\<lambda>a. fpowi a (m st)) (u st ! k)) (col (X st) j)
      = fsum (map (\<lambda>i. fmul (fpowi (u st ! k ! i) (m st)) (X st ! i ! j)) [0..<n])"
  proof -
    have "map (\<lambda>i. fmul (map (\<lambda>a. fpowi a (m st)) (u st ! k) ! i) (col (X st) j ! i)) [0..<n]
        = map (\<lambda>i. fmul (fpowi (u st ! k ! i) (m st)) (X st ! i ! j)) [0..<n]"
      using luk lx by (intro nth_equalityI) (auto simp: col_def)
    moreover have "dot (map (\<lambda>a. fpowi a (m st)) (u st ! k)) (col (X st) j)
        = fsum (map (\<lambda>i. fmul (map (\<lambda>a. fpowi a (m st)) (u st ! k) ! i) (col (X st) j ! i)) [0..<n])"
      by (rule dot_nth) (simp_all add: luk lx col_def)
    ultimately show ?thesis by (simp only:)
  qed
  ultimately show ?thesis
    using assms(3,4) lu nc
    by (simp add: update_v_def Let_def div_rows_def matmul_def mpowi_def sum_axis1_def)
qed


lemma fpowi_weight:
  assumes "all_num (u st)" "all_num (mpowi (u st) (m st))" "k < length (u st)" "i < length (u st ! k)"
  shows "fpowi (u st ! k ! i) (m st) = Num (weight st k i)"
proof -
  have a: "u st ! k ! i = Num (ur st k i)"
    using all_num_nth [OF assms(1,3,4)] by (simp add: ur_def)
  have "is_fin (fpowi (u st ! k ! i) (m st))"
    using assms(2,3,4) by (simp add: all_num_def mpowi_def list_all_length)
  then show ?thesis
    by (simp add: a weight_def split: if_splits)
qed

lemma fdiv_zero_not_fin: "\<not> is_fin (fdiv a (Num 0))"
  by (cases a) (simp_all add: inf_of_sign_def)

lemma update_v_entry_num:
  assumes "shapes n d st" "0 < n" "k < K st" "j < d"
    "all_num (u st)" "all_num (X st)" "all_num (mpowi (u st) (m st))"
    "(\<Sum>i<n. weight st k i) \<noteq> 0"
  shows "centroids (update_v st) ! k ! j =
          Num ((\<Sum>i<n. weight st k i * xr st i j) / (\<Sum>i<n. weight st k i))"
proof -
  have lu: "length (u st) = K st" and luk: "length (u st ! k) = n"
    and lx: "length (X st) = n" and lxi: "\<And>i. i < n \<Longrightarrow> length (X st ! i) = d"
    using assms(1,3) by (auto simp: shapes_def is_matrix_length is_matrix_nth)
  have w: "map (\<lambda>i. fpowi (u st ! k ! i) (m st)) [0..<n] = map (\<lambda>i. Num (weight st k i)) [0..<n]"
    using assms lu luk by (intro nth_equalityI) (auto simp: fpowi_weight)
  have wx: "map (\<lambda>i. fmul (fpowi (u st ! k ! i) (m st)) (X st ! i ! j)) [0..<n]
          = map (\<lambda>i. Num (weight st k i * xr st i j)) [0..<n]"
  proof (intro nth_equalityI)
    fix i assume "i < length (map (\<lambda>i. fmul (fpowi (u st ! k ! i) (m st)) (X st ! i ! j)) [0..<n])"
    then have i: "i < n" by simp
    have "X st ! i ! j = Num (xr st i j)"
      using all_num_nth [of "X st" i j] assms i lx lxi by (simp add: xr_def)
    moreover have "fpowi (u st ! k ! i) (m st) = Num (weight st k i)"
      using assms lu luk i by (simp add: fpowi_weight)
    ultimately show "map (\<lambda>i. fmul (fpowi (u st ! k ! i) (m st)) (X st ! i ! j)) [0..<n] ! i
          = map (\<lambda>i. Num (weight st k i * xr st i j)) [0..<n] ! i"
      using i by simp
  qed simp
  show ?thesis
    using assms(8) unfolding update_v_entry [OF assms(1-4)] w wx fsum_Num sum_list_upt by simp
qed

text \<open>
  C3. For every cluster \<open>k\<close> and coordinate \<open>j\<close>, \<^verbatim>\<open>_update_v\<close> stores the quotient of
  \<open>\<Sum>i. U[k,i]^m * x[i,j]\<close> by \<open>\<Sum>i. U[k,i]^m\<close>, computed in floating-point arithmetic;
  when the data and the weights are finite and the weight sum is not zero, this is the
  weighted mean of the points as a real number.
\<close>

theorem update_v_weighted_mean:
  "shapes n d st \<and> 0 < n \<and> k < K st \<and> j < d \<longrightarrow>
     centroids (update_v st) ! k ! j =
       fdiv (fsum (map (\<lambda>i. fmul (fpowi (u st ! k ! i) (m st)) (X st ! i ! j)) [0..<n]))
            (fsum (map (\<lambda>i. fpowi (u st ! k ! i) (m st)) [0..<n]))
     \<and> (all_num (u st) \<and> all_num (X st) \<and> all_num (mpowi (u st) (m st))
          \<and> (\<Sum>i<n. weight st k i) \<noteq> 0 \<longrightarrow>
        centroids (update_v st) ! k ! j =
          Num ((\<Sum>i<n. weight st k i * xr st i j) / (\<Sum>i<n. weight st k i)))"
  using update_v_entry [of n d st k j] update_v_entry_num [of n d st k j] by blast

lemma ex_fit_shapes: "shapes 2 1 ex_fit"
  by (simp add: shapes_def is_matrix_def ex_fit_def)

lemma ex_fit_all_num:
  "all_num (u ex_fit)" "all_num (X ex_fit)" "all_num (centroids ex_fit)"
  "all_num (mpowi (u ex_fit) (m ex_fit))"
  by (simp_all add: all_num_def ex_fit_def mpowi_def)

lemma sum_less_2: "(\<Sum>i<2. f i) = f 0 + (f (Suc 0) :: real)"
  by (simp add: numeral_2_eq_2)

lemma ex_fit_weight: "weight ex_fit k i = (ur ex_fit k i)\<^sup>2"
  by (simp add: weight_def ex_fit_def)

lemma ex_fit_ur: "ur ex_fit 0 0 = 1 / 2" "ur ex_fit 0 (Suc 0) = 1 / 2"
  "ur ex_fit (Suc 0) 0 = 1 / 2" "ur ex_fit (Suc 0) (Suc 0) = 1 / 2"
  by (simp_all add: ur_def ex_fit_def)

lemma ex_fit_xr: "xr ex_fit 0 0 = 0" "xr ex_fit (Suc 0) 0 = 2"
  by (simp_all add: xr_def ex_fit_def)

theorem update_v_weighted_mean_witness:
  "shapes 2 1 ex_fit \<and> (\<Sum>i<2. weight ex_fit 0 i) = 1 / 2
   \<and> centroids (update_v ex_fit) ! 0 ! 0 = Num 1"
proof -
  have w: "(\<Sum>i<2. weight ex_fit 0 i) = 1 / 2"
    by (simp add: sum_less_2 ex_fit_weight ex_fit_ur power2_eq_square)
  have h1: "shapes 2 1 ex_fit \<and> (0::nat) < 2 \<and> 0 < K ex_fit \<and> (0::nat) < 1"
    using ex_fit_shapes by (simp add: ex_fit_def)
  have h2: "all_num (u ex_fit) \<and> all_num (X ex_fit) \<and> all_num (mpowi (u ex_fit) (m ex_fit))
      \<and> (\<Sum>i<2. weight ex_fit 0 i) \<noteq> 0"
    using ex_fit_all_num w by simp
  have "centroids (update_v ex_fit) ! 0 ! 0
      = Num ((\<Sum>i<2. weight ex_fit 0 i * xr ex_fit i 0) / (\<Sum>i<2. weight ex_fit 0 i))"
    using update_v_weighted_mean [of 2 1 ex_fit 0 0] h1 h2 by blast
  then show ?thesis
    using w ex_fit_shapes
    by (simp add: sum_less_2 ex_fit_weight ex_fit_ur ex_fit_xr power2_eq_square)
qed

text \<open>
  C6, as stated, fails. \<^verbatim>\<open>_update_v\<close> has no guard: with the random sample \<open>ex_sample\<close>
  the first cluster has weight sum 0 after \<^verbatim>\<open>_init_u\<close>, and the update neither raises nor
  keeps the previous centroid \<open>[0]\<close>: it divides by the zero sum and stores NaN.
\<close>

theorem update_v_no_guard_counterexample:
  "centroids (update_v (init_u ex_new ex_sample)) = [[NaN], [Num 1]]
   \<and> random_sample 2 2 ex_sample
   \<and> sum_axis1 (mpowi (u (init_u ex_new ex_sample)) 2) = [Num 0, Num 2]"
  by (simp add: ex_new_def ex_sample_def init_u_def normalize_columns_def sum_axis0_def
      ncols_def col_def update_v_def mpowi_def matmul_def dot_def sum_axis1_def div_rows_def
      inf_of_sign_def random_sample_def is_matrix_def)

text \<open>
  C6, amended. When the weight sum of cluster \<open>k\<close> is zero, \<^verbatim>\<open>_update_v\<close> still divides
  by it: every coordinate of the new centroid \<open>k\<close> is NaN or an infinity. The previous
  centroids play no part in the update, so none is ever retained.
\<close>

theorem update_v_degenerate:
  "(shapes n d st \<and> 0 < n \<and> k < K st \<and> j < d
      \<and> fsum (map (\<lambda>i. fpowi (u st ! k ! i) (m st)) [0..<n]) = Num 0 \<longrightarrow>
    \<not> is_fin (centroids (update_v st) ! k ! j))
   \<and> centroids (update_v (st\<lparr>centroids := c\<rparr>)) = centroids (update_v st)"
proof (intro conjI impI)
  assume a: "shapes n d st \<and> 0 < n \<and> k < K st \<and> j < d
      \<and> fsum (map (\<lambda>i. fpowi (u st ! k ! i) (m st)) [0..<n]) = Num 0"
  then show "\<not> is_fin (centroids (update_v st) ! k ! j)"
    using update_v_entry [of n d st k j] by (simp add: fdiv_zero_not_fin)
next
  show "centroids (update_v (st\<lparr>centroids := c\<rparr>)) = centroids (update_v st)"
    by (simp add: update_v_def Let_def)
qed

lemma ex_empty_shapes: "shapes 2 1 (init_u ex_new ex_sample)"
  by (simp add: shapes_def is_matrix_def ex_new_def ex_sample_def init_u_def
      normalize_columns_def sum_axis0_def ncols_def col_def)

theorem update_v_degenerate_witness:
  "shapes 2 1 (init_u ex_new ex_sample)
   \<and> fsum (map (\<lambda>i. fpowi (u (init_u ex_new ex_sample) ! 0 ! i) (m (init_u ex_new ex_sample))) [0..<2]) = Num 0
   \<and> \<not> is_fin (centroids (update_v (init_u ex_new ex_sample)) ! 0 ! 0)"
  using update_v_degenerate [of 2 1 "init_u ex_new ex_sample" 0 0] ex_empty_shapes
  by (simp add: ex_new_def ex_sample_def init_u_def normalize_columns_def sum_axis0_def
      ncols_def col_def upt_rec)


subsection \<open>The objective\<close>

lemma foldl_Num:
  "(\<And>x a. x \<in> set xs \<Longrightarrow> g (Num a) x = Num (a + h x)) \<Longrightarrow>
   foldl g (Num a) xs = Num (a + sum_list (map h xs))"
  by (induction xs arbitrary: a) (simp_all add: add.assoc)

lemma shapes_length:
  assumes "shapes n d st"
  shows "length (X st) = n" "length (u st) = K st" "length (centroids st) = K st"
  using assms by (simp_all add: shapes_def is_matrix_def)

lemma shapes_nth:
  assumes "shapes n d st"
  shows "i < n \<Longrightarrow> length (X st ! i) = d" "k < K st \<Longrightarrow> length (u st ! k) = n"
    "k < K st \<Longrightarrow> length (centroids st ! k) = d"
  using assms by (simp_all add: shapes_def is_matrix_def list_all_length)

lemma vsub_num:
  assumes "shapes n d st" "all_num (X st)" "all_num (centroids st)" "i < n" "k < K st"
  shows "vsub (X st ! i) (centroids st ! k) = map (\<lambda>j. Num (xr st i j - vr st k j)) [0..<d]"
proof -
  have lx: "length (X st) = n" and lxi: "length (X st ! i) = d"
    and lc: "length (centroids st) = K st" and lck: "length (centroids st ! k) = d"
    using assms by (auto simp: shapes_def is_matrix_length is_matrix_nth)
  have "map2 fsub (X st ! i) (centroids st ! k)
      = map (\<lambda>j. fsub (X st ! i ! j) (centroids st ! k ! j)) [0..<d]"
    using lxi lck by (rule map2_nth)
  also have "\<dots> = map (\<lambda>j. Num (xr st i j - vr st k j)) [0..<d]"
  proof (rule map_cong [OF refl])
    fix j assume "j \<in> set [0..<d]"
    then have j: "j < d" by simp
    have "X st ! i ! j = Num (xr st i j)"
      using all_num_nth [of "X st" i j] assms lx lxi j by (simp add: xr_def)
    moreover have "centroids st ! k ! j = Num (vr st k j)"
      using all_num_nth [of "centroids st" k j] assms lc lck j by (simp add: vr_def)
    ultimately show "fsub (X st ! i ! j) (centroids st ! k ! j) = Num (xr st i j - vr st k j)"
      by (simp add: fsub_def)
  qed
  finally show ?thesis by (simp add: vsub_def)
qed

lemma sqdist_shapes:
  "shapes n d st \<Longrightarrow> i < n \<Longrightarrow> sqdist st i k = (\<Sum>j<d. (xr st i j - vr st k j)\<^sup>2)"
  using is_matrix_nth [of n d "X st" i] by (simp add: sqdist_def shapes_def)

lemma sqdist_nonneg: "0 \<le> sqdist st i k"
  by (simp add: sqdist_def sum_nonneg)

lemma distance_num:
  assumes "shapes n d st" "all_num (X st)" "all_num (centroids st)" "i < n" "k < K st"
  shows "distance st i k = Num (sqrt (sqdist st i k))"
proof -
  have "map (\<lambda>z. fmul z z) (map (\<lambda>j. Num (xr st i j - vr st k j)) [0..<d])
      = map (\<lambda>j. Num ((xr st i j - vr st k j)\<^sup>2)) [0..<d]"
    by (simp add: power2_eq_square)
  then have "fsum (map (\<lambda>z. fmul z z) (vsub (X st ! i) (centroids st ! k))) = Num (sqdist st i k)"
    using assms by (simp only: vsub_num [OF assms] fsum_Num sum_list_upt sqdist_shapes)
  then show ?thesis
    by (simp add: distance_def linalg_norm_def sqdist_nonneg)
qed

lemma loss_term_num:
  assumes "shapes n d st" "all_num (X st)" "all_num (centroids st)" "all_num (u st)"
    "all_num (mpowi (u st) (m st))" "i < n" "k < K st"
  shows "loss_term st i k = Num (weight st k i * sqdist st i k)"
proof -
  have "length (u st) = K st" "length (u st ! k) = n"
    using assms by (auto simp: shapes_def is_matrix_length is_matrix_nth)
  then have "fpowi (u st ! k ! i) (m st) = Num (weight st k i)"
    using assms by (simp add: fpowi_weight)
  moreover have "linalg_norm (vsub (X st ! i) (centroids st ! k)) = Num (sqrt (sqdist st i k))"
    using distance_num [OF assms(1,2,3,6,7)] by (simp add: distance_def)
  ultimately show ?thesis
    by (simp add: loss_term_def sqdist_nonneg)
qed

lemma loss_num:
  assumes "shapes n d st" "all_num (X st)" "all_num (centroids st)" "all_num (u st)"
    "all_num (mpowi (u st) (m st))"
  shows "fst (loss st) = Num (\<Sum>i<n. \<Sum>k<K st. weight st k i * sqdist st i k)"
proof -
  have lx: "length (X st) = n"
    using shapes_length(1) [OF assms(1)] .
  have inner: "foldl (\<lambda>res k. fadd res (loss_term st i k)) (Num b) [0..<K st]
      = Num (b + (\<Sum>k<K st. weight st k i * sqdist st i k))" if "i \<in> set [0..<n]" for i b
  proof -
    have "foldl (\<lambda>res k. fadd res (loss_term st i k)) (Num b) [0..<K st]
      = Num (b + sum_list (map (\<lambda>k. weight st k i * sqdist st i k) [0..<K st]))"
      using assms that by (intro foldl_Num) (simp add: loss_term_num [of n d])
    then show ?thesis by (simp only: sum_list_upt)
  qed
  have "foldl (\<lambda>res i. foldl (\<lambda>res k. fadd res (loss_term st i k)) res [0..<K st]) (Num 0) [0..<n]
      = Num (0 + sum_list (map (\<lambda>i. \<Sum>k<K st. weight st k i * sqdist st i k) [0..<n]))"
    by (intro foldl_Num) (simp add: inner)
  then show ?thesis
    by (simp add: loss_def lx sum_list_upt)
qed

lemma fadd_assoc: "fadd (fadd a b) c = fadd a (fadd b c)"
  by (cases a; cases b; cases c) simp_all

lemma fadd_zero: "fadd (Num 0) a = a" "fadd a (Num 0) = a"
  by (cases a; simp)+

lemma foldl_fadd_fsum: "foldl (\<lambda>r k. fadd r (t k)) a xs = fadd a (fsum (map t xs))"
  by (induction xs arbitrary: a) (simp_all add: fadd_zero fadd_assoc)

lemma foldl_foldl_fadd_fsum:
  "foldl (\<lambda>r i. foldl (\<lambda>r k. fadd r (t i k)) r ks) a is
     = fadd a (fsum (map (\<lambda>i. fsum (map (t i) ks)) is))"
  by (induction "is" arbitrary: a) (simp_all add: fadd_zero fadd_assoc foldl_fadd_fsum)

lemma loss_fsum:
  "fst (loss st) =
     fsum (map (\<lambda>i. fsum (map (\<lambda>k. loss_term st i k) [0..<K st])) [0..<length (X st)])"
  by (simp add: loss_def foldl_foldl_fadd_fsum fadd_zero)

text \<open>
  C9. The value \<^verbatim>\<open>_loss\<close> returns is the sum, over all points \<open>i\<close> and clusters \<open>k\<close>, of
  \<open>U[k,i]^m\<close> times the square of the Euclidean norm of \<open>x_i - v_k\<close>, in floating-point
  arithmetic; on an instance with finite data, memberships, weights and centroids it is
  that sum as a real number. The instance is returned as it was.
\<close>

theorem loss_formula:
  "fst (loss st) =
     fsum (map (\<lambda>i. fsum (map (\<lambda>k.
        fmul (fpowi (u st ! k ! i) (m st))
             (fpowi (linalg_norm (vsub (X st ! i) (centroids st ! k))) 2))
        [0..<K st])) [0..<length (X st)])
   \<and> (shapes n d st \<and> all_num (X st) \<and> all_num (centroids st) \<and> all_num (u st)
      \<and> all_num (mpowi (u st) (m st)) \<longrightarrow>
    fst (loss st) = Num (\<Sum>i<n. \<Sum>k<K st. weight st k i * sqdist st i k))
   \<and> snd (loss st) = st"
  using loss_num [of n d st] loss_fsum [of st] unfolding loss_term_def by (simp add: loss_def)

lemma ex_fit_sqdist:
  "sqdist ex_fit 0 0 = 1" "sqdist ex_fit 0 (Suc 0) = 1"
  "sqdist ex_fit (Suc 0) 0 = 1" "sqdist ex_fit (Suc 0) (Suc 0) = 1"
  by (simp_all add: sqdist_def xr_def vr_def ex_fit_def)

theorem loss_formula_witness:
  "shapes 2 1 ex_fit \<and> all_num (X ex_fit) \<and> all_num (centroids ex_fit) \<and> all_num (u ex_fit)
   \<and> all_num (mpowi (u ex_fit) (m ex_fit)) \<and> fst (loss ex_fit) = Num 1"
proof -
  have h: "shapes 2 1 ex_fit \<and> all_num (X ex_fit) \<and> all_num (centroids ex_fit)
      \<and> all_num (u ex_fit) \<and> all_num (mpowi (u ex_fit) (m ex_fit))"
    using ex_fit_shapes ex_fit_all_num by simp
  have k: "K ex_fit = 2" by (simp add: ex_fit_def)
  have "fst (loss ex_fit) = Num (\<Sum>i<2. \<Sum>k<K ex_fit. weight ex_fit k i * sqdist ex_fit i k)"
    using loss_formula [of ex_fit 2 1] h by blast
  then have "fst (loss ex_fit) = Num 1"
    by (simp add: k sum_less_2 ex_fit_weight ex_fit_ur ex_fit_sqdist power2_eq_square)
  then show ?thesis using h by simp
qed


subsection \<open>The membership update without exceptions\<close>

lemma foldM_pure:
  "(\<And>x s. x \<in> set xs \<Longrightarrow> f x s = Inr (g x s)) \<Longrightarrow> foldM f xs s = Inr (fold g xs s)"
  by (induction xs arbitrary: s) simp_all

lemma foldM_pure_foldl:
  "(\<And>x s. x \<in> set xs \<Longrightarrow> f x s = Inr (g s x)) \<Longrightarrow> foldM f xs s = Inr (foldl g s xs)"
  by (induction xs arbitrary: s) simp_all

lemma exponent_ok: "m' \<noteq> 1 \<Longrightarrow> exponent m' = Inr (2 / real_of_int (m' - 1))"
  by (simp add: exponent_def)

lemma membership_value:
  assumes "m st \<noteq> 1" "u st \<noteq> []"
  shows "membership st k i = Inr (u_ki_value st k i)"
proof -
  have "foldM (u_ki_step st i (distance st i k)) [0..<length (u st)] (Num 0)
      = Inr (foldl (\<lambda>s j. fadd s (fpowr (fdiv (distance st i k) (distance st i j))
                                      (2 / real_of_int (m st - 1)))) (Num 0) [0..<length (u st)])"
    by (rule foldM_pure_foldl) (simp add: u_ki_step_def exponent_ok assms)
  then show ?thesis
    using assms by (simp add: membership_def u_ki_value_def)
qed

lemma fold_update_row:
  "j \<le> length xs \<Longrightarrow> fold (\<lambda>i r. r[i := g i]) [0..<j] xs = map g [0..<j] @ drop j xs"
proof (induction j)
  case 0
  then show ?case by simp
next
  case (Suc j)
  then have "fold (\<lambda>i r. r[i := g i]) [0..<Suc j] xs = (map g [0..<j] @ drop j xs)[j := g j]"
    by simp
  also have "\<dots> = map g [0..<j] @ (drop j xs)[0 := g j]"
    by (simp add: list_update_append)
  also have "(drop j xs)[0 := g j] = g j # drop (Suc j) xs"
    using Suc.prems by (metis Cons_nth_drop_Suc Suc_le_lessD list_update_code(2))
  finally show ?case by simp
qed

lemma fold_update_all:
  "length xs = n \<Longrightarrow> fold (\<lambda>i r. r[i := g i]) [0..<n] xs = map g [0..<n]"
  using fold_update_row [of n xs g] by simp

lemma fold_update_in_row:
  "k < length U \<Longrightarrow>
   fold (\<lambda>i U. U[k := (U ! k)[i := g i]]) is U = U[k := fold (\<lambda>i r. r[i := g i]) is (U ! k)]"
  by (induction "is" arbitrary: U) simp_all

lemma fold_update_rows:
  assumes "\<And>k. k < length U \<Longrightarrow> length (U ! k) = n"
  shows "j \<le> length U \<Longrightarrow>
    fold (\<lambda>k U. fold (\<lambda>i U. U[k := (U ! k)[i := g k i]]) [0..<n] U) [0..<j] U
      = map (\<lambda>k. map (g k) [0..<n]) [0..<j] @ drop j U"
proof (induction j)
  case 0
  then show ?case by simp
next
  case (Suc j)
  let ?V = "map (\<lambda>k. map (g k) [0..<n]) [0..<j] @ drop j U"
  have j: "j < length U" using Suc.prems by simp
  then have Vj: "?V ! j = U ! j" by (simp add: nth_append)
  have lV: "j < length ?V" using j by simp
  have "fold (\<lambda>k U. fold (\<lambda>i U. U[k := (U ! k)[i := g k i]]) [0..<n] U) [0..<Suc j] U
      = fold (\<lambda>i U. U[j := (U ! j)[i := g j i]]) [0..<n] ?V"
    using Suc by simp
  also have "\<dots> = ?V[j := fold (\<lambda>i r. r[i := g j i]) [0..<n] (?V ! j)]"
    using lV by (rule fold_update_in_row)
  also have "fold (\<lambda>i r. r[i := g j i]) [0..<n] (?V ! j) = map (g j) [0..<n]"
    unfolding Vj using assms j by (intro fold_update_all) simp
  also have "?V[j := map (g j) [0..<n]]
      = map (\<lambda>k. map (g k) [0..<n]) [0..<j] @ (drop j U)[0 := map (g j) [0..<n]]"
    by (simp add: list_update_append)
  also have "(drop j U)[0 := map (g j) [0..<n]] = map (g j) [0..<n] # drop (Suc j) U"
    using j by (metis Cons_nth_drop_Suc list_update_code(2))
  finally show ?case by simp
qed

lemma update_u_value:
  assumes "shapes n d st" "m st \<noteq> 1"
  shows "update_u st =
    Inr (st\<lparr>u := normalize_columns (map (\<lambda>k. map (u_ki_value st k) [0..<n]) [0..<K st])\<rparr>)"
proof -
  have lx: "length (X st) = n" and lu: "length (u st) = K st"
    using shapes_length [OF assms(1)] by simp_all
  have rows: "\<And>k. k < length (u st) \<Longrightarrow> length (u st ! k) = n"
    using shapes_nth(2) [OF assms(1)] lu by simp
  have inner: "foldM (assign_u st k) [0..<n] U
      = Inr (fold (\<lambda>i U. U[k := (U ! k)[i := u_ki_value st k i]]) [0..<n] U)"
    if "k \<in> set [0..<K st]" for k U
  proof (rule foldM_pure)
    fix i U'
    have "u st \<noteq> []" using that lu by auto
    then show "assign_u st k i U' = Inr (U'[k := (U' ! k)[i := u_ki_value st k i]])"
      by (simp add: assign_u_def membership_value assms(2))
  qed
  have "foldM (\<lambda>k. foldM (assign_u st k) [0..<length (X st)]) [0..<K st] (u st)
      = Inr (fold (\<lambda>k U. fold (\<lambda>i U. U[k := (U ! k)[i := u_ki_value st k i]]) [0..<n] U)
               [0..<K st] (u st))"
    unfolding lx by (rule foldM_pure) (rule inner)
  also have "fold (\<lambda>k U. fold (\<lambda>i U. U[k := (U ! k)[i := u_ki_value st k i]]) [0..<n] U)
               [0..<K st] (u st) = map (\<lambda>k. map (u_ki_value st k) [0..<n]) [0..<K st]"
    using fold_update_rows [of "u st" n "K st" "u_ki_value st", OF rows] lu by simp
  finally show ?thesis by (simp add: update_u_def)
qed

lemma update_u_m_1:
  assumes "m st = 1" "0 < K st" "X st \<noteq> []" "u st \<noteq> []"
  shows "update_u st = Inl ZeroDivisionError"
proof -
  have u: "[0..<length (u st)] = 0 # [1..<length (u st)]"
    using assms(4) by (simp add: upt_rec)
  have "membership st 0 0 = Inl ZeroDivisionError"
    by (simp add: membership_def u u_ki_step_def exponent_def assms(1))
  then have a: "assign_u st 0 0 U = Inl ZeroDivisionError" for U
    by (simp add: assign_u_def)
  have x: "[0..<length (X st)] = 0 # [1..<length (X st)]"
    using assms(3) by (simp add: upt_rec)
  have k: "[0..<K st] = 0 # [1..<K st]"
    using assms(2) by (simp add: upt_rec)
  show ?thesis
    by (simp add: update_u_def k x a)
qed


subsection \<open>A point that coincides with a centroid\<close>

lemma fadd_NaN [simp]: "fadd a NaN = NaN"
  by (cases a) simp_all

lemma fdiv_NaN [simp]: "fdiv a NaN = NaN"
  by (cases a) simp_all

lemma foldl_fadd_from_NaN: "foldl (\<lambda>s j. fadd s (t j)) NaN xs = NaN"
  by (induction xs) simp_all

lemma foldl_fadd_NaN:
  "j \<in> set xs \<Longrightarrow> t j = NaN \<Longrightarrow> foldl (\<lambda>s j. fadd s (t j)) a xs = NaN"
  by (induction xs arbitrary: a) (auto simp: foldl_fadd_from_NaN)

lemma fsum_NaN: "NaN \<in> set xs \<Longrightarrow> fsum xs = NaN"
  by (induction xs) auto

lemma is_matrix_map:
  "is_matrix r c (map (\<lambda>k. map (g k) [0..<c]) [0..<r])"
  by (simp add: is_matrix_def list_all_length)

lemma normalize_columns_nth:
  assumes "is_matrix r c A" "j < r" "i < c"
  shows "normalize_columns A ! j ! i = fdiv (A ! j ! i) (fsum (col A i))"
proof -
  have l: "length A = r" "length (A ! j) = c" "ncols A = c"
    using assms is_matrix_length [of r c A] is_matrix_nth [of r c A j] is_matrix_ncols [of r c A]
    by simp_all
  then show ?thesis
    using assms by (simp add: normalize_columns_def sum_axis0_def)
qed

lemma u_ki_value_NaN:
  assumes "m st \<noteq> 1" "k < length (u st)" "distance st i k = Num 0"
  shows "u_ki_value st k i = NaN"
proof -
  have "fpowr (fdiv (distance st i k) (distance st i k)) (2 / real_of_int (m st - 1)) = NaN"
    using assms by (simp add: inf_of_sign_def)
  then have "foldl (\<lambda>s j. fadd s (fpowr (fdiv (distance st i k) (distance st i j))
                                      (2 / real_of_int (m st - 1)))) (Num 0) [0..<length (u st)] = NaN"
    using assms(2) by (intro foldl_fadd_NaN [where j = k]) simp_all
  then show ?thesis by (simp add: u_ki_value_def)
qed

lemma ex_crisp_run:
  "centroids (update_v (init_u ex_new ex_crisp_sample)) = X (init_u ex_new ex_crisp_sample)"
  "compute_centroids (init_u ex_new ex_crisp_sample)
       = Inr (ex_new\<lparr>u := [[NaN, NaN], [NaN, NaN]], centroids := [[Num 0], [Num 2]]\<rparr>)"
  by (simp_all add: ex_new_def ex_crisp_sample_def init_u_def normalize_columns_def sum_axis0_def
      ncols_def col_def update_v_def mpowi_def matmul_def dot_def sum_axis1_def div_rows_def
      inf_of_sign_def compute_centroids_def loss_def update_u_def assign_u_def membership_def
      u_ki_step_def exponent_def distance_def linalg_norm_def vsub_def fsub_def upt_rec)

text \<open>
  C2, as stated, fails. With crisp initial memberships the centroids computed by
  \<^verbatim>\<open>_update_v\<close> are the two points, and the membership update that follows divides
  \<^verbatim>\<open>0.0 / 0.0\<close>: every membership becomes NaN, none is 1 or 0.
\<close>

theorem update_u_coincident_counterexample:
  "centroids (update_v (init_u ex_new ex_crisp_sample)) = X (init_u ex_new ex_crisp_sample)
   \<and> compute_centroids (init_u ex_new ex_crisp_sample)
       = Inr (ex_new\<lparr>u := [[NaN, NaN], [NaN, NaN]], centroids := [[Num 0], [Num 2]]\<rparr>)"
  using ex_crisp_run by simp

text \<open>
  C2, amended. For a point \<open>x_i\<close> that coincides with a centroid \<open>v_k\<close> the membership
  update (with \<open>m\<close> other than 1) has no special case: it divides the zero distance by
  itself, and after the update every membership of that point, \<open>U[j,i]\<close> for every
  cluster \<open>j\<close>, is NaN.
\<close>

theorem update_u_coincident:
  "shapes n d st \<and> m st \<noteq> 1 \<and> k < K st \<and> i < n \<and> distance st i k = Num 0 \<longrightarrow>
   (\<exists>st'. update_u st = Inr st' \<and> (\<forall>j<K st. u st' ! j ! i = NaN))"
proof
  assume a: "shapes n d st \<and> m st \<noteq> 1 \<and> k < K st \<and> i < n \<and> distance st i k = Num 0"
  let ?U = "map (\<lambda>k. map (u_ki_value st k) [0..<n]) [0..<K st]"
  have lu: "length (u st) = K st"
    using a shapes_length(2) [of n d st] by simp
  have m: "is_matrix (K st) n ?U" by (rule is_matrix_map)
  have "u_ki_value st k i = NaN"
    using a lu by (simp add: u_ki_value_NaN)
  then have "col ?U i ! k = NaN"
    using a by (simp add: col_def)
  then have "NaN \<in> set (col ?U i)"
    using a by (metis col_def length_map length_upt minus_nat.diff_0 nth_mem)
  then have s: "fsum (col ?U i) = NaN" by (rule fsum_NaN)
  have "\<forall>j<K st. normalize_columns ?U ! j ! i = NaN"
    using a by (simp add: normalize_columns_nth [OF m] s del: map_map)
  then show "\<exists>st'. update_u st = Inr st' \<and> (\<forall>j<K st. u st' ! j ! i = NaN)"
    using a update_u_value [of n d st] by simp
qed

lemma ex_coincide_shapes: "shapes 2 1 (update_v (init_u ex_new ex_crisp_sample))"
  by (simp add: shapes_def is_matrix_def ex_new_def ex_crisp_sample_def init_u_def
      normalize_columns_def sum_axis0_def ncols_def col_def update_v_def mpowi_def matmul_def
      dot_def sum_axis1_def div_rows_def)

theorem update_u_coincident_witness:
  "shapes 2 1 (update_v (init_u ex_new ex_crisp_sample))
   \<and> distance (update_v (init_u ex_new ex_crisp_sample)) 0 0 = Num 0
   \<and> (\<exists>st'. update_u (update_v (init_u ex_new ex_crisp_sample)) = Inr st'
        \<and> u st' ! 0 ! 0 = NaN \<and> u st' ! 1 ! 0 = NaN)"
proof -
  let ?st = "update_v (init_u ex_new ex_crisp_sample)"
  have d: "distance ?st 0 0 = Num 0"
    by (simp add: ex_new_def ex_crisp_sample_def init_u_def
      normalize_columns_def sum_axis0_def ncols_def col_def update_v_def mpowi_def matmul_def
      dot_def sum_axis1_def div_rows_def distance_def linalg_norm_def vsub_def fsub_def)
  have k: "m ?st \<noteq> 1 \<and> 0 < K ?st \<and> K ?st = 2"
    by (simp add: ex_new_def init_u_def update_v_def Let_def)
  have "shapes 2 1 ?st \<and> m ?st \<noteq> 1 \<and> 0 < K ?st \<and> (0::nat) < 2 \<and> distance ?st 0 0 = Num 0"
    using ex_coincide_shapes d k by simp
  then have "\<exists>st'. update_u ?st = Inr st' \<and> (\<forall>j<K ?st. u st' ! j ! 0 = NaN)"
    using update_u_coincident [of 2 1 ?st 0 0] by blast
  then show ?thesis
    using ex_coincide_shapes d k by auto
qed


subsection \<open>The fuzziness exponent 1\<close>

lemma update_v_fields [simp]:
  "K (update_v st) = K st" "X (update_v st) = X st" "m (update_v st) = m st"
  "u (update_v st) = u st" "it (update_v st) = it st" "max_it (update_v st) = max_it st"
  "epsilon (update_v st) = epsilon st"
  by (simp_all add: update_v_def Let_def)

lemma snd_loss [simp]: "snd (loss st) = st"
  by (simp add: loss_def)

text \<open>
  C7, as stated, fails. The constructor stores \<open>m = 1\<close> and hands the instance to the
  base class (here one that accepts it); nothing is raised before the run. The run
  fails inside \<^verbatim>\<open>_compute_centroids\<close>, that is in its first iteration, and the error is
  Python's \<^verbatim>\<open>ZeroDivisionError\<close>.
\<close>

theorem fcm_m_1_counterexample:
  "fcm_init Inr ex_new 1 (1 / 100) = Inr (ex_new\<lparr>m := 1\<rparr>)
   \<and> compute_centroids (init_u (ex_new\<lparr>m := 1\<rparr>) ex_crisp_sample) = Inl ZeroDivisionError"
  by (simp add: fcm_init_def ex_new_def ex_crisp_sample_def init_u_def normalize_columns_def
      compute_centroids_def update_u_m_1)

text \<open>
  C7, amended. \<^verbatim>\<open>FuzzyCMeans.__init__\<close> does not check \<open>m\<close>: with \<open>m = 1\<close> it passes the
  instance to the constructor of the base class as with any other value. On an
  instance with \<open>m = 1\<close>, at least one cluster and at least one point, the membership
  update, and with it the first iteration, raises \<^verbatim>\<open>ZeroDivisionError\<close> at the exponent
  \<^verbatim>\<open>2 / (m - 1)\<close>, after the centroid update. With any other \<open>m\<close> the membership update
  raises nothing.
\<close>

theorem fcm_m_1:
  "fcm_init kmeans_init self 1 eps = kmeans_init (self\<lparr>m := 1, epsilon := eps\<rparr>)
   \<and> (m st = 1 \<and> 0 < K st \<and> X st \<noteq> [] \<and> u st \<noteq> [] \<longrightarrow>
        update_u st = Inl ZeroDivisionError \<and> compute_centroids st = Inl ZeroDivisionError)
   \<and> (shapes n d st \<and> m st \<noteq> 1 \<longrightarrow> (\<exists>st'. update_u st = Inr st'))"
proof (intro conjI impI)
  show "fcm_init kmeans_init self 1 eps = kmeans_init (self\<lparr>m := 1, epsilon := eps\<rparr>)"
    by (simp add: fcm_init_def)
next
  assume a: "m st = 1 \<and> 0 < K st \<and> X st \<noteq> [] \<and> u st \<noteq> []"
  then show "update_u st = Inl ZeroDivisionError"
    by (simp add: update_u_m_1)
  have "update_u (update_v st) = Inl ZeroDivisionError"
    using a by (intro update_u_m_1) simp_all
  then show "compute_centroids st = Inl ZeroDivisionError"
    by (simp add: compute_centroids_def)
next
  assume "shapes n d st \<and> m st \<noteq> 1"
  then show "\<exists>st'. update_u st = Inr st'"
    using update_u_value [of n d st] by simp
qed

theorem fcm_m_1_witness:
  "update_u (ex_fit\<lparr>m := 1\<rparr>) = Inl ZeroDivisionError
   \<and> shapes 2 1 ex_fit \<and> m ex_fit = 2 \<and> (\<exists>st'. update_u ex_fit = Inr st')"
proof -
  have "m (ex_fit\<lparr>m := 1\<rparr>) = 1 \<and> 0 < K (ex_fit\<lparr>m := 1\<rparr>) \<and> X (ex_fit\<lparr>m := 1\<rparr>) \<noteq> []
      \<and> u (ex_fit\<lparr>m := 1\<rparr>) \<noteq> []"
    by (simp add: ex_fit_def)
  then have 1: "update_u (ex_fit\<lparr>m := 1\<rparr>) = Inl ZeroDivisionError"
    using fcm_m_1 [of Inr ex_fit 0 "ex_fit\<lparr>m := 1\<rparr>" 2 1] by blast
  have m: "m ex_fit = 2" by (simp add: ex_fit_def)
  then have "shapes 2 1 ex_fit \<and> m ex_fit \<noteq> 1"
    using ex_fit_shapes by simp
  then have "\<exists>st'. update_u ex_fit = Inr st'"
    using fcm_m_1 [of Inr ex_fit 0 ex_fit 2 1] by blast
  then show ?thesis using 1 m ex_fit_shapes by simp
qed


subsection \<open>Column sums of the membership matrix\<close>

lemma is_fin_Num: "is_fin a \<Longrightarrow> a = Num (the_num a)"
  by (cases a) simp_all

lemma normalize_columns_sum:
  assumes "is_matrix r c A" "i < c" "\<forall>k<r. is_fin (A ! k ! i)" "fsum (col A i) \<noteq> Num 0"
  shows "fsum (col (normalize_columns A) i) = Num 1"
proof -
  define a where "a k = the_num (A ! k ! i)" for k
  have l: "length A = r" using assms(1) by (simp add: is_matrix_def)
  have c: "col A i = map (\<lambda>k. Num (a k)) [0..<r]"
    unfolding col_def a_def using l assms(3)
    by (intro nth_equalityI) (auto simp: is_fin_Num)
  then have s: "fsum (col A i) = Num (\<Sum>k<r. a k)"
    by (simp only: fsum_Num sum_list_upt)
  then have nz: "(\<Sum>k<r. a k) \<noteq> 0" using assms(4) by auto
  have ln: "length (normalize_columns A) = r"
    by (simp add: normalize_columns_def l)
  have "col (normalize_columns A) i = map (\<lambda>k. Num (a k / (\<Sum>k<r. a k))) [0..<r]"
  proof (intro nth_equalityI)
    show "length (col (normalize_columns A) i) = length (map (\<lambda>k. Num (a k / (\<Sum>k<r. a k))) [0..<r])"
      by (simp add: col_def ln)
    fix k assume "k < length (col (normalize_columns A) i)"
    then have k: "k < r" by (simp add: col_def ln)
    have "A ! k ! i = Num (a k)"
      using assms(3) k by (simp add: a_def is_fin_Num)
    then have "normalize_columns A ! k ! i = Num (a k / (\<Sum>k<r. a k))"
      using normalize_columns_nth [OF assms(1) k assms(2)] s nz by simp
    then show "col (normalize_columns A) i ! k = map (\<lambda>k. Num (a k / (\<Sum>k<r. a k))) [0..<r] ! k"
      using k by (simp add: col_def ln)
  qed
  then have "fsum (col (normalize_columns A) i) = Num (\<Sum>k<r. a k / (\<Sum>k<r. a k))"
    by (simp only: fsum_Num sum_list_upt)
  also have "(\<Sum>k<r. a k / (\<Sum>k<r. a k)) = 1"
    using nz by (simp add: sum_divide_distrib [symmetric])
  finally show ?thesis .
qed

lemma fdiv_Num: "b \<noteq> 0 \<Longrightarrow> fdiv (Num a) (Num b) = Num (a / b)"
  by simp

lemma fpowr_Num: "0 < x \<Longrightarrow> y \<noteq> 0 \<Longrightarrow> fpowr (Num x) y = Num (x powr y)"
  by simp

lemma distance_pos:
  assumes "shapes n d st" "all_num (X st)" "all_num (centroids st)" "i < n" "k < K st"
    "distance st i k \<noteq> Num 0"
  shows "0 < sqrt (sqdist st i k)"
  using distance_num [OF assms(1-5)] assms(6) sqdist_nonneg [of st i k]
  by (cases "sqdist st i k = 0") simp_all

lemma ratio_sum_pos:
  assumes "\<forall>j<K st. 0 < sqrt (sqdist st i j)" "k < K st"
  shows "0 < ratio_sum st k i"
  unfolding ratio_sum_def using assms
  by (intro sum_pos) auto

lemma u_ki_value_num:
  assumes "shapes n d st" "all_num (X st)" "all_num (centroids st)" "i < n" "k < K st"
    "m st \<noteq> 1" "\<forall>j<K st. distance st i j \<noteq> Num 0"
  shows "u_ki_value st k i = Num (mu st k i)"
proof -
  let ?e = "2 / real_of_int (m st - 1)"
  have e: "?e \<noteq> 0" using assms(6) by simp
  have pos: "\<forall>j<K st. 0 < sqrt (sqdist st i j)"
    using assms distance_pos [OF assms(1-4)] by blast
  have lu: "length (u st) = K st" using shapes_length(2) [OF assms(1)] .
  have dk: "distance st i k = Num (sqrt (sqdist st i k))"
    using distance_num [OF assms(1-5)] .
  have "foldl (\<lambda>s j. fadd s (fpowr (fdiv (distance st i k) (distance st i j)) ?e))
          (Num 0) [0..<length (u st)]
      = Num (0 + sum_list (map (\<lambda>j. (sqrt (sqdist st i k) / sqrt (sqdist st i j)) powr ?e)
                 [0..<length (u st)]))"
  proof (rule foldl_Num)
    fix j a assume "j \<in> set [0..<length (u st)]"
    then have j: "j < K st" using lu by simp
    have dj: "distance st i j = Num (sqrt (sqdist st i j))"
      using distance_num [OF assms(1-4) j] .
    have pj: "0 < sqrt (sqdist st i j)" and pk: "0 < sqrt (sqdist st i k)"
      using pos j assms(5) by blast+
    have q: "0 < sqrt (sqdist st i k) / sqrt (sqdist st i j)"
      using pj pk by (rule divide_pos_pos [rotated])
    have "fdiv (Num (sqrt (sqdist st i k))) (Num (sqrt (sqdist st i j)))
        = Num (sqrt (sqdist st i k) / sqrt (sqdist st i j))"
      using pj by (intro fdiv_Num) simp
    moreover have "fpowr (Num (sqrt (sqdist st i k) / sqrt (sqdist st i j))) ?e
        = Num ((sqrt (sqdist st i k) / sqrt (sqdist st i j)) powr ?e)"
      using q e by (intro fpowr_Num)
    ultimately show "fadd (Num a) (fpowr (fdiv (distance st i k) (distance st i j)) ?e)
        = Num (a + (sqrt (sqdist st i k) / sqrt (sqdist st i j)) powr ?e)"
      unfolding dk dj by simp
  qed
  then have "foldl (\<lambda>s j. fadd s (fpowr (fdiv (distance st i k) (distance st i j)) ?e))
          (Num 0) [0..<length (u st)] = Num (ratio_sum st k i)"
    by (simp add: sum_list_upt lu ratio_sum_def)
  moreover have "ratio_sum st k i \<noteq> 0"
    using ratio_sum_pos [OF pos assms(5)] by simp
  ultimately show ?thesis
    by (simp add: u_ki_value_def mu_def power_int_minus field_simps)
qed


lemma mu_pos:
  assumes "\<forall>j<K st. 0 < sqrt (sqdist st i j)" "k < K st"
  shows "0 < mu st k i"
  using ratio_sum_pos [OF assms] by (simp add: mu_def)

lemma is_matrix_normalize:
  assumes "is_matrix r c A"
  shows "is_matrix r c (normalize_columns A)"
proof (cases "r = 0")
  case True
  then show ?thesis using assms by (simp add: is_matrix_def normalize_columns_def)
next
  case False
  then have "ncols A = c" using assms is_matrix_ncols [of r c A] by simp
  then show ?thesis
    using assms by (simp add: is_matrix_def normalize_columns_def list_all_length sum_axis0_def)
qed

lemma update_u_entry:
  assumes "shapes n d st" "all_num (X st)" "all_num (centroids st)" "i < n"
    "m st \<noteq> 1" "\<forall>j<K st. distance st i j \<noteq> Num 0" "0 < K st"
  shows "\<exists>st'. update_u st = Inr st' \<and> st' = st\<lparr>u := u st'\<rparr>
     \<and> is_matrix (K st) n (u st')
     \<and> (\<forall>k<K st. u st' ! k ! i = Num (mu st k i / (\<Sum>j<K st. mu st j i)))
     \<and> fsum (col (u st') i) = Num 1"
proof -
  let ?U = "map (\<lambda>k. map (u_ki_value st k) [0..<n]) [0..<K st]"
  have M: "is_matrix (K st) n ?U" by (rule is_matrix_map)
  have val: "?U ! k ! i = Num (mu st k i)" if "k < K st" for k
    using that assms(4) u_ki_value_num [OF assms(1-4) that assms(5,6)] by simp
  have pos: "\<forall>j<K st. 0 < sqrt (sqdist st i j)"
    using assms distance_pos [OF assms(1-4)] by blast
  have c: "col ?U i = map (\<lambda>k. Num (mu st k i)) [0..<K st]"
    unfolding col_def using val by (intro nth_equalityI) simp_all
  have s: "fsum (col ?U i) = Num (\<Sum>k<K st. mu st k i)"
    unfolding c by (simp only: fsum_Num sum_list_upt)
  have sp: "0 < (\<Sum>k<K st. mu st k i)"
    using assms(7) mu_pos [OF pos] by (intro sum_pos) auto
  have fin: "\<forall>k<K st. is_fin (?U ! k ! i)"
    using val by simp
  have nz: "fsum (col ?U i) \<noteq> Num 0"
    using s sp by simp
  have 1: "fsum (col (normalize_columns ?U) i) = Num 1"
    using normalize_columns_sum [OF M assms(4) fin nz] .
  have 2: "\<forall>k<K st. normalize_columns ?U ! k ! i = Num (mu st k i / (\<Sum>j<K st. mu st j i))"
  proof (intro allI impI)
    fix k assume k: "k < K st"
    show "normalize_columns ?U ! k ! i = Num (mu st k i / (\<Sum>j<K st. mu st j i))"
      unfolding normalize_columns_nth [OF M k assms(4)] s val [OF k] using sp by simp
  qed
  have 3: "is_matrix (K st) n (normalize_columns ?U)"
    using M by (rule is_matrix_normalize)
  show ?thesis
    using update_u_value [OF assms(1,5)] 1 2 3 by simp
qed


text \<open>
  Where no division by zero occurs the column sums are 1. \<^verbatim>\<open>_init_u\<close> makes the sum of
  column \<open>i\<close> of \<open>U\<close> equal to 1 whenever the random numbers of that column do not sum
  to zero, and \<^verbatim>\<open>_update_u\<close> (with \<open>m\<close> other than 1, finite data and centroids and at
  least one cluster) whenever point \<open>i\<close> coincides with no centroid. The sums are exact,
  as rounding is not modelled.
\<close>

lemma column_sum_one:
  "(random_sample (K st) n r \<and> i < n \<and> fsum (col r i) \<noteq> Num 0 \<longrightarrow>
      fsum (col (u (init_u st r)) i) = Num 1)
   \<and> (shapes n d st \<and> all_num (X st) \<and> all_num (centroids st) \<and> m st \<noteq> 1 \<and> 0 < K st
        \<and> i < n \<and> (\<forall>k<K st. distance st i k \<noteq> Num 0) \<longrightarrow>
      (\<exists>st'. update_u st = Inr st' \<and> fsum (col (u st') i) = Num 1))"
proof (intro conjI impI)
  assume a: "random_sample (K st) n r \<and> i < n \<and> fsum (col r i) \<noteq> Num 0"
  then have M: "is_matrix (K st) n r" by (simp add: random_sample_def)
  have "\<forall>k<K st. is_fin (r ! k ! i)"
    using a by (simp add: random_sample_def is_matrix_def list_all_length)
  then have "fsum (col (normalize_columns r) i) = Num 1"
    using a by (intro normalize_columns_sum [OF M]) simp_all
  then show "fsum (col (u (init_u st r)) i) = Num 1"
    by (simp add: init_u_def)
next
  assume a: "shapes n d st \<and> all_num (X st) \<and> all_num (centroids st) \<and> m st \<noteq> 1 \<and> 0 < K st
        \<and> i < n \<and> (\<forall>k<K st. distance st i k \<noteq> Num 0)"
  then show "\<exists>st'. update_u st = Inr st' \<and> fsum (col (u st') i) = Num 1"
    using update_u_entry [of n d st i] by blast
qed

lemma ex_fit_distance: "distance ex_fit i k = Num 1" if "i < 2" "k < 2"
proof -
  have "i = 0 \<or> i = 1" "k = 0 \<or> k = 1" using that by auto
  then show ?thesis
    by (auto simp: distance_def linalg_norm_def vsub_def fsub_def ex_fit_def)
qed

lemma column_sum_one_example:
  "random_sample (K ex_new) 2 ex_crisp_sample \<and> fsum (col ex_crisp_sample 0) = Num (1 / 2)
   \<and> fsum (col (u (init_u ex_new ex_crisp_sample)) 0) = Num 1
   \<and> shapes 2 1 ex_fit \<and> distance ex_fit 0 0 = Num 1 \<and> distance ex_fit 0 1 = Num 1
   \<and> (\<exists>st'. update_u ex_fit = Inr st' \<and> fsum (col (u st') 0) = Num 1)"
proof -
  have r: "random_sample (K ex_new) 2 ex_crisp_sample"
    by (simp add: random_sample_def is_matrix_def ex_crisp_sample_def ex_new_def)
  have c: "fsum (col ex_crisp_sample 0) = Num (1 / 2)"
    by (simp add: col_def ex_crisp_sample_def)
  have "random_sample (K ex_new) 2 ex_crisp_sample \<and> (0::nat) < 2
      \<and> fsum (col ex_crisp_sample 0) \<noteq> Num 0"
    using r c by simp
  then have 1: "fsum (col (u (init_u ex_new ex_crisp_sample)) 0) = Num 1"
    using column_sum_one [where st = ex_new and n = 2 and r = ex_crisp_sample and i = 0] by blast
  have k: "K ex_fit = 2" "m ex_fit \<noteq> 1" by (simp_all add: ex_fit_def)
  have d: "\<forall>k<K ex_fit. distance ex_fit 0 k \<noteq> Num 0"
    using ex_fit_distance [of 0] k by simp
  have "shapes 2 1 ex_fit \<and> all_num (X ex_fit) \<and> all_num (centroids ex_fit) \<and> m ex_fit \<noteq> 1
      \<and> 0 < K ex_fit \<and> (0::nat) < 2 \<and> (\<forall>k<K ex_fit. distance ex_fit 0 k \<noteq> Num 0)"
    using ex_fit_shapes ex_fit_all_num k d by simp
  then have 2: "\<exists>st'. update_u ex_fit = Inr st' \<and> fsum (col (u st') 0) = Num 1"
    using column_sum_one [where st = ex_fit and n = 2 and d = 1 and i = 0] by blast
  show ?thesis
    using r c 1 2 ex_fit_shapes ex_fit_distance [of 0 0] ex_fit_distance [of 0 1] by simp
qed

text \<open>
  C1. The docstring of \<^verbatim>\<open>_init_u\<close> promises random values such that each column adds up
  to 1, and \<^verbatim>\<open>_update_u\<close> ends with the same division by the column sums. The code
  does not keep the promise in every reachable state. When \<^verbatim>\<open>np.random.random\<close> returns
  a sample whose first column is zero, \<^verbatim>\<open>_init_u\<close> divides \<^verbatim>\<open>0.0 / 0.0\<close> and the first
  column of \<open>U\<close> sums to NaN; and after one iteration from crisp memberships, where the
  centroids are the points, both column sums of \<open>U\<close> are NaN.
\<close>

theorem column_sum_nan:
  "random_sample 2 2 ex_zero_column_sample
   \<and> sum_axis0 (u (init_u ex_new ex_zero_column_sample)) = [NaN, Num 1]
   \<and> random_sample 2 2 ex_crisp_sample
   \<and> (\<exists>st'. compute_centroids (init_u ex_new ex_crisp_sample) = Inr st'
         \<and> sum_axis0 (u st') = [NaN, NaN])"
proof -
  have "random_sample 2 2 ex_zero_column_sample" "random_sample 2 2 ex_crisp_sample"
    by (simp_all add: random_sample_def is_matrix_def ex_zero_column_sample_def ex_crisp_sample_def)
  moreover have "sum_axis0 (u (init_u ex_new ex_zero_column_sample)) = [NaN, Num 1]"
    by (simp add: init_u_def ex_zero_column_sample_def normalize_columns_def sum_axis0_def
        ncols_def col_def inf_of_sign_def)
  moreover have "sum_axis0 [[NaN, NaN], [NaN, NaN]] = [NaN, NaN]"
    by (simp add: sum_axis0_def ncols_def col_def)
  ultimately show ?thesis
    using ex_crisp_run(2) by simp
qed


subsection \<open>The exhausted budget\<close>

lemma ex_fit_norm: "linalg_norm_ord1 (msub (centroids ex_fit) [[Num 1], [Num 1]]) = Inr (Num 0)"
  by (simp add: ex_fit_def linalg_norm_ord1_def msub_def vsub_def fsub_def sum_axis0_def
      ncols_def col_def)

lemma ex_far_norm:
  "linalg_norm_ord1 (msub (centroids ex_fit) [[Num 0], [Num 2]]) = Inr (Num 2)"
  by (simp add: ex_fit_def linalg_norm_ord1_def msub_def vsub_def fsub_def sum_axis0_def
      ncols_def col_def)

text \<open>
  C8, as stated, fails. Take an instance whose budget is exhausted and two runs that end
  in it: in one the centroids moved from a snapshot at the points (the 1-norm of the
  movement is 2, far above \<open>epsilon\<close>), in the other they did not move at all. The
  convergence predicate answers true both times, with the same instance, and
  \<^verbatim>\<open>predict\<close> returns the memberships and centroids of that instance: neither what is
  returned nor the instance tells the two runs apart.
\<close>

theorem no_convergence_flag_counterexample:
  "max_it (ex_fit\<lparr>it := 10\<rparr>) \<le> it (ex_fit\<lparr>it := 10\<rparr>)
   \<and> linalg_norm_ord1 (msub (centroids (ex_fit\<lparr>it := 10\<rparr>)) [[Num 0], [Num 2]]) = Inr (Num 2)
   \<and> \<not> fless (Num 2) (Num (epsilon (ex_fit\<lparr>it := 10\<rparr>)))
   \<and> linalg_norm_ord1 (msub (centroids (ex_fit\<lparr>it := 10\<rparr>)) [[Num 1], [Num 1]]) = Inr (Num 0)
   \<and> fless (Num 0) (Num (epsilon (ex_fit\<lparr>it := 10\<rparr>)))
   \<and> check_convergence (ex_fit\<lparr>it := 10\<rparr>) (Some [[Num 0], [Num 2]]) = Inr True
   \<and> check_convergence (ex_fit\<lparr>it := 10\<rparr>) (Some [[Num 1], [Num 1]]) = Inr True
   \<and> predict (ex_fit\<lparr>it := 10\<rparr>) (X ex_fit)
       = ((u ex_fit, centroids ex_fit), ex_fit\<lparr>it := 10\<rparr>)"
  using ex_far_norm ex_fit_norm
  by (simp add: check_convergence_def predict_def ex_fit_def)

text \<open>
  C8, amended. When the iteration budget is exhausted the convergence predicate returns
  true whatever the movement of the centroids, also with no snapshot, which is the
  condition that ends the run; \<^verbatim>\<open>predict\<close> then returns the current memberships and
  centroids and nothing else. What it returns depends on \<open>u\<close> and \<open>centroids\<close> alone,
  so it is the same whether the run stopped by the budget or by the tolerance.
\<close>

theorem budget_exhausted_returns_state:
  "(max_it st \<le> it st \<longrightarrow> check_convergence st prev = Inr True)
   \<and> fst (predict st X') = (u st, centroids st)
   \<and> (u st = u st' \<and> centroids st = centroids st' \<longrightarrow>
        fst (predict st X') = fst (predict st' X''))"
  by (simp add: check_convergence_def predict_def)

theorem budget_exhausted_returns_state_witness:
  "max_it (ex_fit\<lparr>it := 10\<rparr>) \<le> it (ex_fit\<lparr>it := 10\<rparr>)
   \<and> check_convergence (ex_fit\<lparr>it := 10\<rparr>) (Some [[Num 0], [Num 2]]) = Inr True
   \<and> u (ex_fit\<lparr>it := 10\<rparr>) = u ex_fit \<and> centroids (ex_fit\<lparr>it := 10\<rparr>) = centroids ex_fit
   \<and> fst (predict (ex_fit\<lparr>it := 10\<rparr>) []) = fst (predict ex_fit (X ex_fit))"
proof -
  have h: "max_it (ex_fit\<lparr>it := 10\<rparr>) \<le> it (ex_fit\<lparr>it := 10\<rparr>)"
    by (simp add: ex_fit_def)
  have e: "u (ex_fit\<lparr>it := 10\<rparr>) = u ex_fit \<and> centroids (ex_fit\<lparr>it := 10\<rparr>) = centroids ex_fit"
    by simp
  show ?thesis
    using budget_exhausted_returns_state [of "ex_fit\<lparr>it := 10\<rparr>" "Some [[Num 0], [Num 2]]" "[]"
        ex_fit "X ex_fit"] h e
    by blast
qed


subsection \<open>Monotonicity of the objective\<close>

text \<open>
  Two facts about real numbers carry the proof: a weighted mean minimises the weighted
  sum of squared deviations, and among the non-negative vectors that sum to 1 the
  updated memberships minimise \<open>\<Sum>k. q k ^ M * a k\<close>, by Bernoulli's inequality.
\<close>

lemma weighted_mean_minimises:
  fixes w x :: "nat \<Rightarrow> real"
  assumes "\<forall>i<n. 0 \<le> w i" "(\<Sum>i<n. w i) \<noteq> 0"
  defines "c' \<equiv> (\<Sum>i<n. w i * x i) / (\<Sum>i<n. w i)"
  shows "(\<Sum>i<n. w i * (x i - c')\<^sup>2) \<le> (\<Sum>i<n. w i * (x i - c)\<^sup>2)"
proof -
  let ?W = "\<Sum>i<n. w i"
  have W: "0 \<le> ?W" using assms(1) by (intro sum_nonneg) simp
  have z: "(\<Sum>i<n. w i * (x i - c')) = 0"
  proof -
    have "(\<Sum>i<n. w i * (x i - c')) = (\<Sum>i<n. w i * x i) - c' * ?W"
      by (simp add: algebra_simps sum_subtractf sum_distrib_left)
    also have "\<dots> = 0" using assms(2) by (simp add: c'_def)
    finally show ?thesis .
  qed
  have "(\<Sum>i<n. w i * (x i - c)\<^sup>2)
      = (\<Sum>i<n. w i * (x i - c')\<^sup>2 + 2 * (c' - c) * (w i * (x i - c')) + (c' - c)\<^sup>2 * w i)"
    by (intro sum.cong refl) (simp add: power2_eq_square algebra_simps)
  also have "\<dots> = (\<Sum>i<n. w i * (x i - c')\<^sup>2) + 2 * (c' - c) * (\<Sum>i<n. w i * (x i - c'))
      + (c' - c)\<^sup>2 * ?W"
    by (simp add: sum.distrib sum_distrib_left)
  also have "\<dots> = (\<Sum>i<n. w i * (x i - c')\<^sup>2) + (c' - c)\<^sup>2 * ?W"
    by (simp add: z)
  finally show ?thesis using W by simp
qed

lemma bernoulli_tangent:
  fixes t :: real
  assumes "0 \<le> t"
  shows "1 + real M * (t - 1) \<le> t ^ M"
  using Bernoulli_inequality [of "t - 1" M] assms by simp

lemma membership_minimises:
  fixes p q a :: "nat \<Rightarrow> real"
  assumes p: "\<forall>k<r. 0 < p k" and sp: "(\<Sum>k<r. p k) = 1"
    and q: "\<forall>k<r. 0 \<le> q k" and sq: "(\<Sum>k<r. q k) = 1"
    and c: "\<forall>k<r. p k ^ M * a k = c * p k" and c0: "0 \<le> c"
  shows "(\<Sum>k<r. p k ^ M * a k) \<le> (\<Sum>k<r. q k ^ M * a k)"
proof -
  have "(\<Sum>k<r. p k ^ M * a k) = (\<Sum>k<r. c * p k)"
    using c by (intro sum.cong refl) simp
  also have "\<dots> = c" by (simp add: sum_distrib_left [symmetric] sp)
  finally have l: "(\<Sum>k<r. p k ^ M * a k) = c" .
  have "c * (p k + real M * (q k - p k)) \<le> q k ^ M * a k" if "k < r" for k
  proof -
    have pk: "0 < p k" using p that by simp
    let ?t = "q k / p k"
    have t: "0 \<le> ?t" using pk q that by simp
    have "q k ^ M * a k = ?t ^ M * (p k ^ M * a k)"
      using pk by (simp add: power_divide)
    also have "\<dots> = ?t ^ M * (c * p k)" using c that by simp
    finally have e: "q k ^ M * a k = ?t ^ M * (c * p k)" .
    have "(1 + real M * (?t - 1)) * (c * p k) \<le> ?t ^ M * (c * p k)"
      using bernoulli_tangent [OF t] c0 pk by (intro mult_right_mono) simp_all
    moreover have "(1 + real M * (?t - 1)) * (c * p k) = c * (p k + real M * (q k - p k))"
      using pk by (simp add: field_simps)
    ultimately show ?thesis using e by simp
  qed
  then have "(\<Sum>k<r. c * (p k + real M * (q k - p k))) \<le> (\<Sum>k<r. q k ^ M * a k)"
    by (intro sum_mono) simp
  moreover have "(\<Sum>k<r. c * (p k + real M * (q k - p k))) = c"
    by (simp add: sum_distrib_left [symmetric] sum.distrib sum_subtractf sp sq)
  ultimately show ?thesis using l by simp
qed


lemma all_num_mpowi:
  assumes "all_num A" "0 \<le> e"
  shows "all_num (mpowi A e)"
proof -
  have "is_fin a \<Longrightarrow> is_fin (fpowi a e)" for a
    using assms(2) by (cases a) simp_all
  then show ?thesis
    using assms(1) by (simp add: all_num_def mpowi_def list_all_length)
qed

lemma update_v_shapes:
  assumes "shapes n d st" "0 < n"
  shows "shapes n d (update_v st)"
proof -
  have "ncols (X st) = d" "length (u st) = K st"
    using assms is_matrix_ncols [of n d "X st"] by (simp_all add: shapes_def is_matrix_def)
  then have "is_matrix (K st) d (centroids (update_v st))"
    by (simp add: update_v_def Let_def div_rows_def matmul_def mpowi_def sum_axis1_def
        is_matrix_def list_all_length)
  then show ?thesis
    using assms(1) by (simp add: shapes_def)
qed

lemma update_v_all_num:
  assumes "shapes n d st" "0 < n" "all_num (u st)" "all_num (X st)"
    "all_num (mpowi (u st) (m st))" "\<forall>k<K st. (\<Sum>i<n. weight st k i) \<noteq> 0"
  shows "all_num (centroids (update_v st))"
proof -
  have s: "shapes n d (update_v st)" using assms(1,2) by (rule update_v_shapes)
  have "is_fin (centroids (update_v st) ! k ! j)" if "k < K st" "j < d" for k j
    using update_v_entry_num [OF assms(1,2) that assms(3,4,5)] assms(6) that by simp
  then show ?thesis
    using shapes_length(3) [OF s] shapes_nth(3) [OF s]
    by (simp add: all_num_def list_all_length)
qed

lemma update_v_vr:
  assumes "shapes n d st" "0 < n" "all_num (u st)" "all_num (X st)"
    "all_num (mpowi (u st) (m st))" "(\<Sum>i<n. weight st k i) \<noteq> 0" "k < K st" "j < d"
  shows "vr (update_v st) k j = (\<Sum>i<n. weight st k i * xr st i j) / (\<Sum>i<n. weight st k i)"
  using update_v_entry_num [OF assms(1,2,7,8,3,4,5,6)] by (simp add: vr_def)

lemma update_v_quantities [simp]:
  "weight (update_v st) k i = weight st k i" "xr (update_v st) i j = xr st i j"
  "ur (update_v st) k i = ur st k i"
  by (simp_all add: weight_def xr_def ur_def)

lemma loss_r_swap:
  assumes "shapes n d st"
  shows "loss_r n st = (\<Sum>k<K st. \<Sum>j<d. \<Sum>i<n. weight st k i * (xr st i j - vr st k j)\<^sup>2)"
proof -
  have "loss_r n st = (\<Sum>i<n. \<Sum>k<K st. \<Sum>j<d. weight st k i * (xr st i j - vr st k j)\<^sup>2)"
    unfolding loss_r_def
    by (intro sum.cong refl) (simp add: sqdist_shapes [OF assms] sum_distrib_left)
  also have "\<dots> = (\<Sum>k<K st. \<Sum>i<n. \<Sum>j<d. weight st k i * (xr st i j - vr st k j)\<^sup>2)"
    by (rule sum.swap)
  also have "\<dots> = (\<Sum>k<K st. \<Sum>j<d. \<Sum>i<n. weight st k i * (xr st i j - vr st k j)\<^sup>2)"
    by (rule sum.cong [OF refl]) (rule sum.swap)
  finally show ?thesis .
qed

lemma weight_nonneg: "0 \<le> ur st k i \<Longrightarrow> 0 \<le> weight st k i"
  by (simp add: weight_def)

lemma update_v_loss_r:
  assumes "shapes n d st" "0 < n" "all_num (u st)" "all_num (X st)" "0 \<le> m st"
    "\<forall>k<K st. \<forall>i<n. 0 \<le> ur st k i" "\<forall>k<K st. (\<Sum>i<n. weight st k i) \<noteq> 0"
  shows "loss_r n (update_v st) \<le> loss_r n st"
proof -
  have p: "all_num (mpowi (u st) (m st))" using assms(3,5) by (rule all_num_mpowi)
  have s: "shapes n d (update_v st)" using assms(1,2) by (rule update_v_shapes)
  have "(\<Sum>i<n. weight st k i * (xr st i j - vr (update_v st) k j)\<^sup>2)
      \<le> (\<Sum>i<n. weight st k i * (xr st i j - vr st k j)\<^sup>2)" if "k < K st" "j < d" for k j
  proof -
    have w: "\<forall>i<n. 0 \<le> weight st k i" using assms(6) that by (simp add: weight_nonneg)
    have nz: "(\<Sum>i<n. weight st k i) \<noteq> 0" using assms(7) that by simp
    show ?thesis
      unfolding update_v_vr [OF assms(1,2,3,4) p nz that]
      using w nz by (rule weighted_mean_minimises)
  qed
  then have "(\<Sum>k<K st. \<Sum>j<d. \<Sum>i<n. weight st k i * (xr st i j - vr (update_v st) k j)\<^sup>2)
      \<le> (\<Sum>k<K st. \<Sum>j<d. \<Sum>i<n. weight st k i * (xr st i j - vr st k j)\<^sup>2)"
    by (intro sum_mono [where K = "{..<K st}"] sum_mono [where K = "{..<d}"]) simp
  then show ?thesis
    using loss_r_swap [OF s] loss_r_swap [OF assms(1)] by simp
qed


lemma ratio_sum_factor:
  fixes a :: "nat \<Rightarrow> real" and e :: real
  assumes "\<forall>j<r. 0 < a j" "k < r"
  shows "(\<Sum>j<r. (sqrt (a k) / sqrt (a j)) powr e)
       = sqrt (a k) powr e * (\<Sum>j<r. inverse (sqrt (a j) powr e))"
proof -
  have "(sqrt (a k) / sqrt (a j)) powr e = sqrt (a k) powr e * inverse (sqrt (a j) powr e)" for j
    unfolding powr_divide by (simp add: divide_inverse)
  then show ?thesis
    by (simp only: sum_distrib_left)
qed

lemma inverse_ratio_power:
  fixes a :: "nat \<Rightarrow> real"
  assumes "\<forall>j<r. 0 < a j" "k < r" "0 < N"
  defines "R \<equiv> \<Sum>j<r. (sqrt (a k) / sqrt (a j)) powr (2 / real N)"
  defines "S \<equiv> \<Sum>j<r. inverse (sqrt (a j) powr (2 / real N))"
  shows "0 < S" and "(1 / R) ^ N * a k = (1 / S) ^ N"
proof -
  have ak: "0 < a k" using assms(1,2) by simp
  have "0 < inverse (sqrt (a j) powr (2 / real N))" if "j < r" for j
    using assms(1) that by force
  then show S: "0 < S"
    unfolding S_def using assms(2) by (intro sum_pos) auto
  have R: "R = sqrt (a k) powr (2 / real N) * S"
    unfolding R_def S_def using assms(1,2) by (rule ratio_sum_factor)
  have "(sqrt (a k) powr (2 / real N)) ^ N = sqrt (a k) powr (real N * (2 / real N))"
    using ak by (intro powr_power) simp
  also have "\<dots> = sqrt (a k) powr 2"
    using assms(3) by simp
  also have "\<dots> = a k"
    using ak by simp
  finally have p: "(sqrt (a k) powr (2 / real N)) ^ N = a k" .
  have "(1 / R) ^ N * a k = a k / ((sqrt (a k) powr (2 / real N)) ^ N * S ^ N)"
    unfolding R by (simp add: power_divide power_mult_distrib)
  also have "\<dots> = (1 / S) ^ N"
    unfolding p using ak by (simp add: power_divide)
  finally show "(1 / R) ^ N * a k = (1 / S) ^ N" .
qed


lemma sqdist_update_u [simp]: "sqdist (st\<lparr>u := U\<rparr>) i k = sqdist st i k"
  by (simp add: sqdist_def xr_def vr_def)

lemma update_u_loss_r:
  assumes "shapes n d st" "all_num (X st)" "all_num (centroids st)" "1 < m st" "0 < n"
    and nc: "\<forall>i<n. \<forall>k<K st. distance st i k \<noteq> Num 0"
    and q0: "\<forall>k<K st. \<forall>i<n. 0 \<le> ur st k i" and q1: "\<forall>i<n. (\<Sum>k<K st. ur st k i) = 1"
  shows "\<exists>st'. update_u st = Inr st' \<and> st' = st\<lparr>u := u st'\<rparr> \<and> shapes n d st'
     \<and> all_num (u st') \<and> loss_r n st' \<le> loss_r n st"
proof -
  have m1: "m st \<noteq> 1" using assms(4) by simp
  have K0: "0 < K st"
  proof (rule ccontr)
    assume "\<not> 0 < K st"
    then have "(\<Sum>k<K st. ur st k 0) = 0" by simp
    then show False using q1 assms(5) by simp
  qed
  obtain st' where st': "update_u st = Inr st'"
    using update_u_value [OF assms(1) m1] by simp
  define T where "T i = (\<Sum>j<K st. mu st j i)" for i
  have E: "st' = st\<lparr>u := u st'\<rparr> \<and> is_matrix (K st) n (u st')
      \<and> (\<forall>k<K st. u st' ! k ! i = Num (mu st k i / T i))" if "i < n" for i
    using update_u_entry [OF assms(1-3) that m1 _ K0] nc that st' unfolding T_def by auto
  have eq: "st' = st\<lparr>u := u st'\<rparr>" and M: "is_matrix (K st) n (u st')"
    using E [OF assms(5)] by simp_all
  have sh: "shapes n d st'"
    using assms(1) M by (subst eq) (simp add: shapes_def)
  have fin: "all_num (u st')"
    using M E by (simp add: all_num_def is_matrix_def list_all_length)
  define M' where "M' = nat (m st)"
  define N where "N = nat (m st - 1)"
  have mM: "m st = int M'" and MN: "M' = Suc N" and N0: "0 < N"
    and rN: "real_of_int (m st - 1) = real N"
    using assms(4) by (simp_all add: M'_def N_def)
  have Kst': "K st' = K st" and mst': "m st' = m st"
    by (subst eq, simp)+
  have "(\<Sum>k<K st. weight st' k i * sqdist st' i k) \<le> (\<Sum>k<K st. weight st k i * sqdist st i k)"
    if i: "i < n" for i
  proof -
    define a where "a k = sqdist st i k" for k
    define p where "p k = mu st k i / T i" for k
    define S where "S = (\<Sum>j<K st. inverse (sqrt (a j) powr (2 / real N)))"
    have pos: "\<forall>j<K st. 0 < sqrt (sqdist st i j)"
      using distance_pos [OF assms(1-3) i] nc i by blast
    then have a0: "\<forall>j<K st. 0 < a j" by (simp add: a_def)
    have mu0: "\<forall>k<K st. 0 < mu st k i"
      using mu_pos [OF pos] by simp
    have T0: "0 < T i"
      unfolding T_def using mu0 K0 by (intro sum_pos) auto
    have p0: "\<forall>k<K st. 0 < p k"
      using mu0 T0 by (simp add: p_def)
    have p1: "(\<Sum>k<K st. p k) = 1"
      using T0 by (simp add: p_def sum_divide_distrib [symmetric] T_def)
    have ur': "ur st' k i = p k" if "k < K st" for k
      using E [OF i] that by (simp add: ur_def p_def)
    have w': "weight st' k i = p k ^ M'" if "k < K st" for k
      using ur' [OF that] by (simp add: weight_def mst' mM)
    have w: "weight st k i = ur st k i ^ M'" for k
      by (simp add: weight_def mM)
    have sd: "sqdist st' i k = a k" for k
      by (subst eq) (simp add: a_def)
    have S0: "0 < S" and id: "(1 / ratio_sum st k i) ^ N * a k = (1 / S) ^ N" if "k < K st" for k
      using inverse_ratio_power [OF a0 that N0] unfolding S_def ratio_sum_def a_def rN by simp_all
    have c: "\<forall>k<K st. p k ^ M' * a k = ((1 / S) ^ N / T i ^ N) * p k"
    proof (intro allI impI)
      fix k assume k: "k < K st"
      have "p k ^ N * a k = (1 / ratio_sum st k i) ^ N * a k / T i ^ N"
        by (simp add: p_def mu_def power_divide power_mult_distrib)
      then have h: "p k ^ N * a k = (1 / S) ^ N / T i ^ N"
        using id [OF k] by simp
      have "p k ^ M' * a k = (p k ^ N * a k) * p k"
        unfolding MN by simp
      then show "p k ^ M' * a k = ((1 / S) ^ N / T i ^ N) * p k"
        unfolding h .
    qed
    have c0: "0 \<le> (1 / S) ^ N / T i ^ N"
      using S0 [OF K0] T0 by simp
    have "(\<Sum>k<K st. p k ^ M' * a k) \<le> (\<Sum>k<K st. ur st k i ^ M' * a k)"
      using p0 p1 _ _ c c0
    proof (rule membership_minimises)
      show "\<forall>k<K st. 0 \<le> ur st k i" using q0 i by simp
      show "(\<Sum>k<K st. ur st k i) = 1" using q1 i by simp
    qed
    then show ?thesis
      by (simp add: w' w sd a_def)
  qed
  then have "loss_r n st' \<le> loss_r n st"
    unfolding loss_r_def Kst' by (rule sum_mono) simp
  then show ?thesis
    using st' eq sh fin by blast
qed


lemma iteration_loss_r:
  assumes "shapes n d st" "0 < n" "all_num (X st)" "all_num (u st)" "all_num (centroids st)"
    "1 < m st"
    and q0: "\<forall>k<K st. \<forall>i<n. 0 \<le> ur st k i" and q1: "\<forall>i<n. (\<Sum>k<K st. ur st k i) = 1"
    and wz: "\<forall>k<K st. (\<Sum>i<n. weight st k i) \<noteq> 0"
    and nc: "\<forall>i<n. \<forall>k<K st. distance (update_v st) i k \<noteq> Num 0"
  shows "\<exists>st'. compute_centroids st = Inr st'
     \<and> fst (loss st) = Num (loss_r n st)
     \<and> fst (loss (update_v st)) = Num (loss_r n (update_v st))
     \<and> fst (loss st') = Num (loss_r n st')
     \<and> loss_r n (update_v st) \<le> loss_r n st
     \<and> loss_r n st' \<le> loss_r n (update_v st)"
proof -
  let ?st1 = "update_v st"
  have m0: "0 \<le> m st" using assms(6) by simp
  have p: "all_num (mpowi (u st) (m st))" using assms(4) m0 by (rule all_num_mpowi)
  have s1: "shapes n d ?st1" using assms(1,2) by (rule update_v_shapes)
  have c1: "all_num (centroids ?st1)"
    using assms(1,2,4,3) p wz by (rule update_v_all_num)
  have l0: "fst (loss st) = Num (loss_r n st)"
    unfolding loss_r_def using assms(1,3,5,4) p by (rule loss_num)
  have l1: "fst (loss ?st1) = Num (loss_r n ?st1)"
    unfolding loss_r_def using loss_num [OF s1 _ c1] assms(3,4) p by simp
  have v: "loss_r n ?st1 \<le> loss_r n st"
    using assms(1,2,4,3) m0 q0 wz by (rule update_v_loss_r)
  obtain st' where st': "update_u ?st1 = Inr st'" and eq: "st' = ?st1\<lparr>u := u st'\<rparr>"
    and s2: "shapes n d st'" and f2: "all_num (u st')" and le: "loss_r n st' \<le> loss_r n ?st1"
    using update_u_loss_r [OF s1 _ c1 _ assms(2)] assms(3,6) nc q0 q1 by auto
  have X2: "X st' = X st" and C2: "centroids st' = centroids ?st1" and m2: "m st' = m st"
    by (subst eq, simp)+
  have p2: "all_num (mpowi (u st') (m st'))"
    using f2 m0 unfolding m2 by (rule all_num_mpowi)
  have l2: "fst (loss st') = Num (loss_r n st')"
    unfolding loss_r_def using loss_num [OF s2 _ _ f2 p2] assms(3) c1 by (simp add: X2 C2)
  have "compute_centroids st = Inr st'"
    using st' by (simp add: compute_centroids_def)
  then show ?thesis
    using l0 l1 l2 v le by simp
qed


text \<open>
  C4, as stated, fails. Take the instance with both centroids at 1 and let \<^verbatim>\<open>_init_u\<close>
  draw the sample \<open>ex_sample\<close>: the first cluster has membership 0 for both points. No
  point coincides with a centroid and the loss is 2. \<^verbatim>\<open>_update_v\<close> divides by the zero
  weight sum of the first cluster, its centroid becomes NaN (so no point coincides with
  it either) and the loss after the update is NaN, which is not below 2.
\<close>

theorem loss_increase_counterexample:
  "random_sample 2 2 ex_sample \<and> m (init_u ex_fit ex_sample) = 2
   \<and> u (init_u ex_fit ex_sample) = [[Num 0, Num 0], [Num 1, Num 1]]
   \<and> map (\<lambda>i. map (distance (init_u ex_fit ex_sample) i) [0, 1]) [0, 1]
       = [[Num 1, Num 1], [Num 1, Num 1]]
   \<and> fst (loss (init_u ex_fit ex_sample)) = Num 2
   \<and> centroids (update_v (init_u ex_fit ex_sample)) = [[NaN], [Num 1]]
   \<and> map (\<lambda>i. map (distance (update_v (init_u ex_fit ex_sample)) i) [0, 1]) [0, 1]
       = [[NaN, Num 1], [NaN, Num 1]]
   \<and> fst (loss (update_v (init_u ex_fit ex_sample))) = NaN
   \<and> \<not> fle (fst (loss (update_v (init_u ex_fit ex_sample)))) (fst (loss (init_u ex_fit ex_sample)))"
  by (simp add: ex_fit_def ex_sample_def init_u_def normalize_columns_def sum_axis0_def
      ncols_def col_def update_v_def mpowi_def matmul_def dot_def sum_axis1_def div_rows_def
      inf_of_sign_def loss_def loss_term_def distance_def linalg_norm_def vsub_def fsub_def
      upt_rec random_sample_def is_matrix_def)

text \<open>
  C4, amended. Take an instance with finite data and centroids, \<open>m > 1\<close>, and memberships
  that are not negative and sum to 1 for every point. If every cluster has a weight sum
  \<open>\<Sum>i. U[k,i]^m\<close> other than zero and no point coincides with a centroid that
  \<^verbatim>\<open>_update_v\<close> computes, then the iteration raises nothing, the loss after the
  centroid update is at most the loss before it, and the loss after the membership
  update that follows is at most the loss after the centroid update.
\<close>

theorem loss_non_increasing:
  "shapes n d st \<and> 0 < n \<and> all_num (X st) \<and> all_num (u st) \<and> all_num (centroids st)
   \<and> 1 < m st
   \<and> (\<forall>k<K st. \<forall>i<n. 0 \<le> ur st k i) \<and> (\<forall>i<n. (\<Sum>k<K st. ur st k i) = 1)
   \<and> (\<forall>k<K st. (\<Sum>i<n. weight st k i) \<noteq> 0)
   \<and> (\<forall>i<n. \<forall>k<K st. distance (update_v st) i k \<noteq> Num 0)
   \<longrightarrow> (\<exists>st'. compute_centroids st = Inr st'
          \<and> fle (fst (loss (update_v st))) (fst (loss st))
          \<and> fle (fst (loss st')) (fst (loss (update_v st))))"
proof
  assume a: "shapes n d st \<and> 0 < n \<and> all_num (X st) \<and> all_num (u st) \<and> all_num (centroids st)
   \<and> 1 < m st
   \<and> (\<forall>k<K st. \<forall>i<n. 0 \<le> ur st k i) \<and> (\<forall>i<n. (\<Sum>k<K st. ur st k i) = 1)
   \<and> (\<forall>k<K st. (\<Sum>i<n. weight st k i) \<noteq> 0)
   \<and> (\<forall>i<n. \<forall>k<K st. distance (update_v st) i k \<noteq> Num 0)"
  then obtain st' where "compute_centroids st = Inr st'"
    "fst (loss st) = Num (loss_r n st)"
    "fst (loss (update_v st)) = Num (loss_r n (update_v st))"
    "fst (loss st') = Num (loss_r n st')"
    "loss_r n (update_v st) \<le> loss_r n st"
    "loss_r n st' \<le> loss_r n (update_v st)"
    using iteration_loss_r [of n d st] by blast
  then show "\<exists>st'. compute_centroids st = Inr st'
          \<and> fle (fst (loss (update_v st))) (fst (loss st))
          \<and> fle (fst (loss st')) (fst (loss (update_v st)))"
    by simp
qed

lemma ex_fit_update_v: "update_v ex_fit = ex_fit"
  by (simp add: ex_fit_def update_v_def mpowi_def matmul_def sum_axis1_def div_rows_def dot_def
      col_def ncols_def)

theorem loss_non_increasing_witness:
  "shapes 2 1 ex_fit \<and> all_num (X ex_fit) \<and> all_num (u ex_fit) \<and> all_num (centroids ex_fit)
   \<and> m ex_fit = 2 \<and> K ex_fit = 2
   \<and> ur ex_fit 0 0 + ur ex_fit 1 0 = 1 \<and> ur ex_fit 0 1 + ur ex_fit 1 1 = 1
   \<and> weight ex_fit 0 0 + weight ex_fit 0 1 = 1 / 2
   \<and> weight ex_fit 1 0 + weight ex_fit 1 1 = 1 / 2
   \<and> distance (update_v ex_fit) 0 0 = Num 1 \<and> distance (update_v ex_fit) 0 1 = Num 1
   \<and> distance (update_v ex_fit) 1 0 = Num 1 \<and> distance (update_v ex_fit) 1 1 = Num 1
   \<and> (\<exists>st'. compute_centroids ex_fit = Inr st'
          \<and> fle (fst (loss (update_v ex_fit))) (fst (loss ex_fit))
          \<and> fle (fst (loss st')) (fst (loss (update_v ex_fit))))"
proof -
  have k: "K ex_fit = 2" and m: "m ex_fit = 2" by (simp_all add: ex_fit_def)
  have lt2: "j < 2 \<longleftrightarrow> j = 0 \<or> j = Suc 0" for j :: nat by auto
  have q0: "\<forall>k<K ex_fit. \<forall>i<2. 0 \<le> ur ex_fit k i"
    by (auto simp: k lt2 ex_fit_ur)
  have q1: "\<forall>i<2. (\<Sum>k<K ex_fit. ur ex_fit k i) = 1"
    by (auto simp: k lt2 sum_less_2 ex_fit_ur)
  have wz: "\<forall>k<K ex_fit. (\<Sum>i<2. weight ex_fit k i) \<noteq> 0"
    by (auto simp: k lt2 sum_less_2 ex_fit_weight ex_fit_ur power2_eq_square)
  have nc: "\<forall>i<2. \<forall>k<K ex_fit. distance (update_v ex_fit) i k \<noteq> Num 0"
    by (simp add: ex_fit_update_v k ex_fit_distance)
  have "shapes 2 1 ex_fit \<and> (0::nat) < 2 \<and> all_num (X ex_fit) \<and> all_num (u ex_fit)
      \<and> all_num (centroids ex_fit) \<and> 1 < m ex_fit
      \<and> (\<forall>k<K ex_fit. \<forall>i<2. 0 \<le> ur ex_fit k i) \<and> (\<forall>i<2. (\<Sum>k<K ex_fit. ur ex_fit k i) = 1)
      \<and> (\<forall>k<K ex_fit. (\<Sum>i<2. weight ex_fit k i) \<noteq> 0)
      \<and> (\<forall>i<2. \<forall>k<K ex_fit. distance (update_v ex_fit) i k \<noteq> Num 0)"
    using ex_fit_shapes ex_fit_all_num m q0 q1 wz nc by simp
  then have "\<exists>st'. compute_centroids ex_fit = Inr st'
          \<and> fle (fst (loss (update_v ex_fit))) (fst (loss ex_fit))
          \<and> fle (fst (loss st')) (fst (loss (update_v ex_fit)))"
    using loss_non_increasing [of 2 1 ex_fit] by blast
  then show ?thesis
    using ex_fit_shapes ex_fit_all_num k m
    by (simp add: ex_fit_update_v ex_fit_distance ex_fit_ur ex_fit_weight power2_eq_square)
qed


subsection \<open>The convergence predicate\<close>

lemma fmax_Num: "fmax (Num a) (Num b) = Num (max a b)"
  by (simp add: max_def)

lemma foldl_fmax_Num: "foldl fmax (Num a) (map Num xs) = Num (fold max xs a)"
  by (induction xs arbitrary: a) (simp_all add: fmax_Num max.commute)

lemma np_max_Num:
  assumes "0 < c"
  shows "np_max (map (\<lambda>j. Num (s j)) [0..<c]) = Inr (Num (Max (s ` {..<c})))"
proof -
  have u: "[0..<c] = 0 # [1..<c]" using assms by (simp add: upt_rec)
  have "np_max (map (\<lambda>j. Num (s j)) [0..<c]) = Inr (foldl fmax (Num (s 0)) (map Num (map s [1..<c])))"
    by (subst u) (simp add: comp_def)
  also have "\<dots> = Inr (Num (fold max (map s [1..<c]) (s 0)))"
    by (simp only: foldl_fmax_Num)
  also have "fold max (map s [1..<c]) (s 0) = Max (set (s 0 # map s [1..<c]))"
    by (simp only: Max.set_eq_fold)
  also have "set (s 0 # map s [1..<c]) = s ` {..<c}"
  proof -
    have "s 0 # map s [1..<c] = map s [0..<c]" by (subst u) simp
    then show ?thesis by (simp only: set_map set_upt atLeast0LessThan)
  qed
  finally show ?thesis .
qed

lemma msub_nth:
  assumes "is_matrix r c A" "is_matrix r c B" "all_num A" "all_num B" "k < r" "j < c"
  shows "msub A B ! k ! j = Num (the_num (A ! k ! j) - the_num (B ! k ! j))"
proof -
  have l: "length A = r" "length B = r" "length (A ! k) = c" "length (B ! k) = c"
    using assms is_matrix_length is_matrix_nth by simp_all
  have "A ! k ! j = Num (the_num (A ! k ! j))" "B ! k ! j = Num (the_num (B ! k ! j))"
    using all_num_nth [of A k j] all_num_nth [of B k j] assms l by simp_all
  then have "fsub (A ! k ! j) (B ! k ! j) = Num (the_num (A ! k ! j) - the_num (B ! k ! j))"
    by (metis fadd.simps(1) fneg.simps(1) fsub_def uminus_add_conv_diff add.commute)
  then show ?thesis
    using assms(5,6) l by (simp add: msub_def vsub_def)
qed

lemma linalg_norm_ord1_num:
  assumes "is_matrix r c A" "is_matrix r c B" "all_num A" "all_num B" "0 < r" "0 < c"
  shows "linalg_norm_ord1 (msub A B)
       = Inr (Num (Max ((\<lambda>j. \<Sum>k<r. \<bar>the_num (A ! k ! j) - the_num (B ! k ! j)\<bar>) ` {..<c})))"
proof -
  let ?D = "map (map fabs) (msub A B)"
  have l: "length A = r" "length B = r" "\<And>k. k < r \<Longrightarrow> length (A ! k) = c"
    "\<And>k. k < r \<Longrightarrow> length (B ! k) = c"
    using assms is_matrix_length is_matrix_nth by simp_all
  have lD: "length ?D = r" using l by (simp add: msub_def)
  have lDk: "length (?D ! k) = c" if "k < r" for k
    using l that by (simp add: msub_def vsub_def)
  have nc: "ncols ?D = c"
    using lD lDk [of 0] assms(5) by (cases ?D) (simp_all add: ncols_def del: map_map)
  have colj: "col ?D j = map (\<lambda>k. Num \<bar>the_num (A ! k ! j) - the_num (B ! k ! j)\<bar>) [0..<r]"
    if "j < c" for j
  proof (intro nth_equalityI)
    show "length (col ?D j) = length (map (\<lambda>k. Num \<bar>the_num (A ! k ! j) - the_num (B ! k ! j)\<bar>) [0..<r])"
      using lD by (simp add: col_def del: map_map)
    fix k assume "k < length (col ?D j)"
    then have k: "k < r" using lD by (simp add: col_def del: map_map)
    have "?D ! k ! j = fabs (msub A B ! k ! j)"
      using k that lD lDk [OF k] by simp
    then show "col ?D j ! k = map (\<lambda>k. Num \<bar>the_num (A ! k ! j) - the_num (B ! k ! j)\<bar>) [0..<r] ! k"
      using k lD msub_nth [OF assms(1-4) k that] by (simp add: col_def del: map_map)
  qed
  have "sum_axis0 ?D = map (\<lambda>j. Num (\<Sum>k<r. \<bar>the_num (A ! k ! j) - the_num (B ! k ! j)\<bar>)) [0..<c]"
    unfolding sum_axis0_def nc
    by (rule map_cong [OF refl]) (simp only: colj fsum_Num sum_list_upt set_upt atLeastLessThan_iff)
  moreover have "msub A B \<noteq> []"
    using l assms(5) by (auto simp: msub_def)
  ultimately show ?thesis
    unfolding linalg_norm_ord1_def using np_max_Num [OF assms(6)] by simp
qed


lemma ex_plane_norm: "linalg_norm_ord1 (msub (centroids ex_plane) ex_origin) = Inr (Num 6)"
  by (simp add: ex_plane_def ex_origin_def linalg_norm_ord1_def msub_def vsub_def fsub_def
      sum_axis0_def ncols_def col_def)

text \<open>
  C5, as stated, fails. The norm that \<^verbatim>\<open>_check_convergence\<close> compares with \<open>epsilon\<close> is
  not the sum of the absolute differences of all coordinates. With centroids at
  \<open>(1, -2)\<close> and \<open>(3, 4)\<close>, a snapshot at the origin and \<open>epsilon = 6.5\<close>, below the
  budget, that sum is 10 and not below \<open>epsilon\<close>, and the predicate returns true all the
  same: NumPy's \<^verbatim>\<open>ord=1\<close> norm of the difference is 6, the larger of the column sums 4
  and 6.
\<close>

theorem check_convergence_l1_counterexample:
  "it ex_plane < max_it ex_plane
   \<and> entrywise_l1_norm (msub (centroids ex_plane) ex_origin) = Num 10
   \<and> \<not> fless (Num 10) (Num (epsilon ex_plane))
   \<and> linalg_norm_ord1 (msub (centroids ex_plane) ex_origin) = Inr (Num 6)
   \<and> check_convergence ex_plane (Some ex_origin) = Inr True"
  using ex_plane_norm
  by (simp add: check_convergence_def)
    (simp add: ex_plane_def ex_origin_def entrywise_l1_norm_def msub_def vsub_def fsub_def)

text \<open>
  C5, amended. The convergence predicate returns true exactly when the iteration counter
  has reached the budget, or a previous snapshot exists and NumPy's \<^verbatim>\<open>ord=1\<close> norm of
  the difference of the centroids to it is strictly below \<open>epsilon\<close>. Without a snapshot
  and below the budget it returns false. That norm is the matrix 1-norm: for finite
  centroids, the largest, over the coordinates, of the sum over the clusters of the
  absolute differences in that coordinate; without any cluster it is 0.
\<close>

theorem check_convergence_iff:
  "(check_convergence st prev = Inr True \<longleftrightarrow>
      max_it st \<le> it st
      \<or> (\<exists>p n. prev = Some p \<and> linalg_norm_ord1 (msub (centroids st) p) = Inr n
                \<and> fless n (Num (epsilon st))))
   \<and> (it st < max_it st \<longrightarrow> check_convergence st None = Inr False)
   \<and> (is_matrix r c (centroids st) \<and> is_matrix r c p \<and> all_num (centroids st) \<and> all_num p
        \<and> 0 < r \<and> 0 < c \<longrightarrow>
      linalg_norm_ord1 (msub (centroids st) p)
        = Inr (Num (Max ((\<lambda>j. \<Sum>k<r. \<bar>vr st k j - the_num (p ! k ! j)\<bar>) ` {..<c}))))
   \<and> (centroids st = [] \<longrightarrow> linalg_norm_ord1 (msub (centroids st) p) = Inr (Num 0))"
proof (intro conjI impI)
  show "check_convergence st prev = Inr True \<longleftrightarrow>
      max_it st \<le> it st
      \<or> (\<exists>p n. prev = Some p \<and> linalg_norm_ord1 (msub (centroids st) p) = Inr n
                \<and> fless n (Num (epsilon st)))"
    by (auto simp: check_convergence_def split: option.splits sum.splits)
next
  assume "it st < max_it st"
  then show "check_convergence st None = Inr False"
    by (simp add: check_convergence_def)
next
  assume "is_matrix r c (centroids st) \<and> is_matrix r c p \<and> all_num (centroids st) \<and> all_num p
        \<and> 0 < r \<and> 0 < c"
  then show "linalg_norm_ord1 (msub (centroids st) p)
        = Inr (Num (Max ((\<lambda>j. \<Sum>k<r. \<bar>vr st k j - the_num (p ! k ! j)\<bar>) ` {..<c})))"
    using linalg_norm_ord1_num [of r c "centroids st" p] by (simp add: vr_def)
next
  assume "centroids st = []"
  then show "linalg_norm_ord1 (msub (centroids st) p) = Inr (Num 0)"
    by (simp add: linalg_norm_ord1_def msub_def)
qed

lemma ex_plane_vr:
  "vr ex_plane 0 0 = 1" "vr ex_plane (Suc 0) 0 = 3"
  "vr ex_plane 0 (Suc 0) = - 2" "vr ex_plane (Suc 0) (Suc 0) = 4"
  by (simp_all add: vr_def ex_plane_def)

theorem check_convergence_iff_witness:
  "it ex_plane < max_it ex_plane
   \<and> is_matrix 2 2 (centroids ex_plane) \<and> is_matrix 2 2 ex_origin
   \<and> all_num (centroids ex_plane) \<and> all_num ex_origin
   \<and> linalg_norm_ord1 (msub (centroids ex_plane) ex_origin) = Inr (Num 6)
   \<and> fless (Num 6) (Num (epsilon ex_plane))
   \<and> check_convergence ex_plane (Some ex_origin) = Inr True
   \<and> check_convergence ex_plane None = Inr False
   \<and> check_convergence (ex_plane\<lparr>it := 10\<rparr>) None = Inr True
   \<and> centroids (ex_plane\<lparr>centroids := []\<rparr>) = []
   \<and> linalg_norm_ord1 (msub (centroids (ex_plane\<lparr>centroids := []\<rparr>)) ex_origin) = Inr (Num 0)"
proof -
  have i: "it ex_plane < max_it ex_plane" and e: "fless (Num 6) (Num (epsilon ex_plane))"
    and b: "max_it (ex_plane\<lparr>it := 10\<rparr>) \<le> it (ex_plane\<lparr>it := 10\<rparr>)"
    by (simp_all add: ex_plane_def)
  have h: "is_matrix 2 2 (centroids ex_plane) \<and> is_matrix 2 2 ex_origin
      \<and> all_num (centroids ex_plane) \<and> all_num ex_origin \<and> (0::nat) < 2 \<and> (0::nat) < 2"
    by (simp add: is_matrix_def all_num_def ex_plane_def ex_origin_def)
  have "linalg_norm_ord1 (msub (centroids ex_plane) ex_origin)
      = Inr (Num (Max ((\<lambda>j. \<Sum>k<2. \<bar>vr ex_plane k j - the_num (ex_origin ! k ! j)\<bar>) ` {..<2})))"
    using check_convergence_iff [of ex_plane None 2 2 ex_origin] h by blast
  also have "{..<2::nat} = {0, Suc 0}" by auto
  finally have n: "linalg_norm_ord1 (msub (centroids ex_plane) ex_origin) = Inr (Num 6)"
    by (simp add: sum_less_2 ex_plane_vr ex_origin_def)
  have t: "check_convergence ex_plane (Some ex_origin) = Inr True"
    using check_convergence_iff [of ex_plane "Some ex_origin"] n e by blast
  have f: "check_convergence ex_plane None = Inr False"
    using check_convergence_iff [of ex_plane None] i by blast
  have g: "check_convergence (ex_plane\<lparr>it := 10\<rparr>) None = Inr True"
    using check_convergence_iff [of "ex_plane\<lparr>it := 10\<rparr>" None] b by blast
  have c: "centroids (ex_plane\<lparr>centroids := []\<rparr>) = []" by simp
  have z: "linalg_norm_ord1 (msub (centroids (ex_plane\<lparr>centroids := []\<rparr>)) ex_origin) = Inr (Num 0)"
    using check_convergence_iff [of "ex_plane\<lparr>centroids := []\<rparr>" None 2 2 ex_origin] c by blast
  show ?thesis
    using i h n e t f g c z by simp
qed

end
